theory Spec2Isabelle
  imports Main "HOL-Library.Word"
begin

unbundle bit_operations_syntax

text \<open>
  A model of the two modules of the QR generator that hold its logic: the secret
  normalizer with the parser of provisioning URIs (\<open>totp.ts\<close>) and the envelope codec
  (\<open>crypto.ts\<close>). The first part gives the definitions, the second the properties.
\<close>

section \<open>JavaScript strings\<close>

text \<open>
  A JavaScript string is a sequence of UTF-16 code units. Code units are natural numbers
  here; \<open>js\<close> turns an ASCII literal into the corresponding code units.
\<close>

type_synonym jsstring = "nat list"

definition js :: "string \<Rightarrow> jsstring" where
  "js s = map of_char s"

text \<open>
  The regular expression class \<open>\s\<close> and \<open>String.prototype.trim\<close> use
      the same set:
  ECMAScript WhiteSpace and LineTerminator.
\<close>

definition isWhiteSpace :: "nat \<Rightarrow> bool" where
  "isWhiteSpace c \<longleftrightarrow>
     (9 \<le> c \<and> c \<le> 13) \<or> c = 32 \<or> c = 160 \<or> c = 5760 \<or> (8192 \<le>
         c \<and> c \<le> 8202) \<or>
     c = 8232 \<or> c = 8233 \<or> c = 8239 \<or> c = 8287 \<or> c = 12288 \<or> c = 65279"

definition trim :: "jsstring \<Rightarrow> jsstring" where
  "trim s = rev (dropWhile isWhiteSpace (rev (dropWhile isWhiteSpace s)))"

text \<open>\<open>s.split(sep)\<close> for a separator of one code unit; the result is never
    empty.\<close>

fun split_on :: "nat \<Rightarrow> jsstring \<Rightarrow> jsstring list" where
  "split_on sep [] = [[]]"
| "split_on sep (c # cs) =
     (if c = sep then [] # split_on sep cs
      else (case split_on sep cs of [] \<Rightarrow> [[c]] | t # ts \<Rightarrow> (c # t) # ts))"

subsection \<open>Code points and upper-casing\<close>

definition isLeadingSurrogate :: "nat \<Rightarrow> bool" where
  "isLeadingSurrogate c \<longleftrightarrow> 55296 \<le> c \<and> c \<le> 56319"

definition isTrailingSurrogate :: "nat \<Rightarrow> bool" where
  "isTrailingSurrogate c \<longleftrightarrow> 56320 \<le> c \<and> c \<le> 57343"

fun StringToCodePoints :: "jsstring \<Rightarrow> nat list" where
  "StringToCodePoints [] = []"
| "StringToCodePoints [c] = [c]"
| "StringToCodePoints (c # d # cs) =
     (if isLeadingSurrogate c \<and> isTrailingSurrogate d
      then (65536 + (c - 55296) * 1024 + (d - 56320)) # StringToCodePoints cs
      else c # StringToCodePoints (d # cs))"

definition UTF16EncodeCodePoint :: "nat \<Rightarrow> jsstring" where
  "UTF16EncodeCodePoint cp =
     (if cp \<le> 65535 then [cp]
      else [(cp - 65536) div 1024 + 55296, (cp - 65536) mod 1024 + 56320])"

definition CodePointsToString :: "nat list \<Rightarrow> jsstring" where
  "CodePointsToString cps = concat (map UTF16EncodeCodePoint cps)"

text \<open>
  \<open>String.prototype.toUpperCase\<close> maps every code point by the Unicode upper-case
  mapping. On ASCII that mapping is \<open>a\<close>--\<open>z\<close> to
      \<open>A\<close>--\<open>Z\<close> and nothing else; the
  mapping of the code points from U+0080 on is a table of the Unicode Character Database,
  which is not part of the repository: \<open>tab\<close> stands for it, and every theorem
      below holds
  for every table.
\<close>

definition upperCodePoint :: "(nat \<Rightarrow> nat list) \<Rightarrow> nat \<Rightarrow> nat
    list" where
  "upperCodePoint tab cp =
     (if 97 \<le> cp \<and> cp \<le> 122 then [cp - 32] else if cp < 128 then [cp] else tab cp)"

definition toUpperCase :: "(nat \<Rightarrow> nat list) \<Rightarrow> jsstring \<Rightarrow>
    jsstring" where
  "toUpperCase tab s =
     CodePointsToString (concat (map (upperCodePoint tab) (StringToCodePoints s)))"

text \<open>The table that maps every code point to itself, for evaluating ASCII inputs.\<close>

definition no_mapping :: "nat \<Rightarrow> nat list" where
  "no_mapping cp = [cp]"

subsection \<open>TextEncoder\<close>

text \<open>
  \<open>new TextEncoder().encode(s)\<close>: the UTF-8 bytes of the code points of
      \<open>s\<close>, a lone
  surrogate being replaced by U+FFFD.
\<close>

definition utf8EncodeCodePoint :: "nat \<Rightarrow> nat list" where
  "utf8EncodeCodePoint cp =
     (if cp < 128 then [cp]
      else if cp < 2048 then [192 + cp div 64, 128 + cp mod 64]
      else if cp < 65536 then [224 + cp div 4096, 128 + cp div 64 mod 64, 128 + cp mod 64]
      else [240 + cp div 262144 mod 8, 128 + cp div 4096 mod 64, 128 + cp div 64 mod 64,
            128 + cp mod 64])"

definition scalarValue :: "nat \<Rightarrow> nat" where
  "scalarValue cp = (if 55296 \<le> cp \<and> cp \<le> 57343 then 65533 else cp)"

definition utf8Bytes :: "jsstring \<Rightarrow> nat list" where
  "utf8Bytes s = concat (map (\<lambda>cp. utf8EncodeCodePoint (scalarValue cp))
      (StringToCodePoints s))"

definition TextEncoder_encode :: "jsstring \<Rightarrow> 8 word list" where
  "TextEncoder_encode s = map of_nat (utf8Bytes s)"

section \<open>Secret normalizer (totp.ts)\<close>

datatype SecretFormat = Base32 | Hex | Words | Mixed

text \<open>
  The messages of the two modules, one constant for each distinct text:
  \<open>EMPTY_INPUT\<close>, \<open>WEAK_PASSWORD\<close>, \<open>ENCRYPTION_FAILED\<close>,
      \<open>DECRYPTION_FAILED\<close> and
  \<open>INVALID_ENCRYPTED_DATA\<close> are the entries of \<open>ERROR_MESSAGES\<close>;
      \<open>SECRET_TOO_SHORT\<close> and
  the four \<open>NOTE\<close> constants are the literals of
      \<open>validateTOTPSecret\<close>, \<open>ENTER_PLAINTEXT\<close>
  is the literal of \<open>validateEncryptionInput\<close>, and
      \<open>ENTER_DATA_AND_PASSWORD\<close> the literal
  of the first test of \<open>decryptPayload\<close>.
\<close>

datatype message =
    EMPTY_INPUT | SECRET_TOO_SHORT
  | NOTE_BASE32 | NOTE_HEX | NOTE_WORDS | NOTE_MIXED
  | ENTER_PLAINTEXT | WEAK_PASSWORD | ENTER_DATA_AND_PASSWORD
  | ENCRYPTION_FAILED | DECRYPTION_FAILED | INVALID_ENCRYPTED_DATA

record ValidationResult =
  isValid :: bool
  errorMessage :: "message option"
  warningMessage :: "message option"

subsection \<open>The regular expressions\<close>

definition isBase32Char :: "nat \<Rightarrow> bool" where
  "isBase32Char c \<longleftrightarrow> (65 \<le> c \<and> c \<le> 90) \<or> (50 \<le> c
      \<and> c \<le> 55)"

definition isHexDigit :: "nat \<Rightarrow> bool" where
  "isHexDigit c \<longleftrightarrow> (48 \<le> c \<and> c \<le> 57) \<or> (65 \<le> c \<and>
      c \<le> 70) \<or> (97 \<le> c \<and> c \<le> 102)"

text \<open>\<open>/^[A-Z2-7]+=*$/.test(s)\<close>\<close>

definition test_base32 :: "jsstring \<Rightarrow> bool" where
  "test_base32 s \<longleftrightarrow>
     takeWhile isBase32Char s \<noteq> [] \<and> list_all (\<lambda>c. c = 61) (dropWhile
         isBase32Char s)"

text \<open>\<open>/^[0-9A-F]+$/i.test(s)\<close>\<close>

definition test_hex :: "jsstring \<Rightarrow> bool" where
  "test_hex s \<longleftrightarrow> s \<noteq> [] \<and> list_all isHexDigit s"

text \<open>\<open>s.replace(/[\s\-_]/g, '').toUpperCase()\<close>\<close>

definition cleanSeparators :: "(nat \<Rightarrow> nat list) \<Rightarrow> jsstring
    \<Rightarrow> jsstring" where
  "cleanSeparators tab s =
     toUpperCase tab (filter (\<lambda>c. \<not> (isWhiteSpace c \<or> c = 45 \<or> c = 95)) s)"

subsection \<open>detectSecretFormat\<close>

definition detectSecretFormat :: "(nat \<Rightarrow> nat list) \<Rightarrow> jsstring
    \<Rightarrow> SecretFormat" where
  "detectSecretFormat tab input =
     (let cleaned = cleanSeparators tab input in
      if test_base32 cleaned then Base32
      else if test_hex cleaned then Hex
      else if 32 \<in> set input \<and> length (split_on 32 input) > 1 then Words
      else Mixed)"

subsection \<open>validateTOTPSecret\<close>

definition validateTOTPSecret :: "(nat \<Rightarrow> nat list) \<Rightarrow> jsstring
    \<Rightarrow> ValidationResult" where
  "validateTOTPSecret tab secret =
     (if secret = [] \<or> length (trim secret) = 0
      then \<lparr>isValid = False, errorMessage = Some EMPTY_INPUT, warningMessage = None\<rparr>
      else if length (trim secret) < 4
      then \<lparr>isValid = False, errorMessage = Some SECRET_TOO_SHORT, warningMessage =
          None\<rparr>
      else \<lparr>isValid = True, errorMessage = None,
            warningMessage = Some (case detectSecretFormat tab secret of
               Base32 \<Rightarrow> NOTE_BASE32 | Hex \<Rightarrow> NOTE_HEX | Words
                   \<Rightarrow> NOTE_WORDS
             | Mixed \<Rightarrow> NOTE_MIXED)\<rparr>)"

subsection \<open>The 5-bit packing loop of hexToBase32 and wordsToBase32\<close>

text \<open>
  \<open>hexToBase32\<close> and \<open>wordsToBase32\<close> hold the same loop over their
      bytes, statement
  for statement; it is written once here, as \<open>base32Pack\<close>.

  \<open>parseInt(s, 16)\<close>: leading white space, a sign and a \<open>0x\<close> prefix
      are skipped, then the
  longest run of hexadecimal digits is read; \<open>None\<close> is NaN. The function is
      applied to
  strings of one or two code units only, where the result is exact.
\<close>

definition hexDigitValue :: "nat \<Rightarrow> nat" where
  "hexDigitValue c = (if c \<le> 57 then c - 48 else if c \<le> 70 then c - 55 else c - 87)"

definition parseInt16 :: "jsstring \<Rightarrow> int option" where
  "parseInt16 s =
     (let S = dropWhile isWhiteSpace s;
          sign = (if S \<noteq> [] \<and> hd S = 45 then - 1 else 1);
          S1 = (if S \<noteq> [] \<and> (hd S = 43 \<or> hd S = 45) then tl S else S);
          S2 = (case S1 of a # b # r \<Rightarrow> if a = 48 \<and> (b = 120 \<or> b = 88)
              then r else S1
                | _ \<Rightarrow> S1);
          Z = takeWhile isHexDigit S2
      in if Z = [] then None
         else Some (sign * int (foldl (\<lambda>acc d. acc * 16 + hexDigitValue d) 0 Z)))"

text \<open>The operand conversion of the bitwise operators: NaN becomes 0, integers wrap.\<close>

definition ToInt32 :: "int option \<Rightarrow> 32 word" where
  "ToInt32 v = (case v of None \<Rightarrow> 0 | Some i \<Rightarrow> word_of_int i)"

text \<open>\<open>for (let i = 0; i < hex.length; i += 2) ... hex.substr(i, 2)\<close>\<close>

fun substr_pairs :: "jsstring \<Rightarrow> jsstring list" where
  "substr_pairs [] = []"
| "substr_pairs [a] = [[a]]"
| "substr_pairs (a # b # r) = [a, b] # substr_pairs r"

definition base32Chars :: jsstring where
  "base32Chars = js ''ABCDEFGHIJKLMNOPQRSTUVWXYZ234567''"

text \<open>
  The loop state is \<open>(result, buffer, bitsLeft)\<close>. \<open>buffer\<close> is a
      32-bit integer, since
  \<open><<\<close>, \<open>>>\<close>, \<open>|\<close> and \<open>&\<close> work on 32-bit
      integers: \<open><<\<close> drops the bits shifted out,
  \<open>>>\<close> propagates the sign, and both take the shift count modulo 32. The two
  differences \<open>bitsLeft - 5\<close> and \<open>5 - bitsLeft\<close> are taken where they
      are not negative:
  the first under the loop condition, the second after the loop, which leaves fewer than
  five bits.
\<close>

function emit5 :: "jsstring \<Rightarrow> 32 word \<Rightarrow> nat \<Rightarrow> jsstring
    \<times> 32 word \<times> nat" where
  "emit5 result buffer bitsLeft =
     (if bitsLeft \<ge> 5
      then emit5 (result @ [base32Chars !
                    unat (signed_drop_bit ((bitsLeft - 5) mod 32) buffer AND 31)])
                 buffer (bitsLeft - 5)
      else (result, buffer, bitsLeft))"
  by pat_completeness auto
termination
  by (relation "measure (\<lambda>(result, buffer, bitsLeft). bitsLeft)") auto

declare emit5.simps [simp del]

fun packLoop :: "32 word list \<Rightarrow> jsstring \<Rightarrow> 32 word \<Rightarrow> nat
    \<Rightarrow> jsstring \<times> 32 word \<times> nat" where
  "packLoop [] result buffer bitsLeft = (result, buffer, bitsLeft)"
| "packLoop (byte # bytes) result buffer bitsLeft =
     (case emit5 result (push_bit 8 buffer OR byte) (bitsLeft + 8) of
        (result', buffer', bitsLeft') \<Rightarrow> packLoop bytes result' buffer' bitsLeft')"

definition base32Pack :: "32 word list \<Rightarrow> jsstring" where
  "base32Pack bytes =
     (case packLoop bytes [] 0 0 of (result, buffer, bitsLeft) \<Rightarrow>
        if bitsLeft > 0
        then result @ [base32Chars ! unat (push_bit ((5 - bitsLeft) mod 32) buffer AND 31)]
        else result)"

definition hexToBase32 :: "jsstring \<Rightarrow> jsstring" where
  "hexToBase32 hex = base32Pack (map (\<lambda>p. ToInt32 (parseInt16 p)) (substr_pairs hex))"

definition wordsToBase32 :: "(nat \<Rightarrow> nat list) \<Rightarrow> jsstring \<Rightarrow>
    jsstring" where
  "wordsToBase32 tab words =
     (let combined = toUpperCase tab (filter (\<lambda>c. \<not> isWhiteSpace c) words) in
      if test_base32 combined then combined
      else base32Pack (map ucast (TextEncoder_encode combined)))"

subsection \<open>cleanTOTPSecret\<close>

text \<open>
  The \<open>try\<close> blocks around the two conversions have no effect: neither conversion
      throws.
\<close>

definition cleanTOTPSecret :: "(nat \<Rightarrow> nat list) \<Rightarrow> jsstring
    \<Rightarrow> jsstring" where
  "cleanTOTPSecret tab secret =
     (case detectSecretFormat tab secret of
        Base32 \<Rightarrow> cleanSeparators tab secret
      | Hex \<Rightarrow> hexToBase32 (cleanSeparators tab secret)
      | Words \<Rightarrow> wordsToBase32 tab secret
      | Mixed \<Rightarrow>
          (let cleaned = cleanSeparators tab secret in
           if test_base32 cleaned then cleaned
           else if test_hex cleaned then hexToBase32 cleaned
           else cleaned))"

subsection \<open>The packing and the normalized secret, as the specification words them\<close>

text \<open>
  The specification's packing keeps a bit buffer without a width: bytes are appended at
  the low end, a symbol is emitted from the five highest pending bits while at least five
  bits are pending, and one to four bits left at the end are shifted left to fill five.
\<close>

function spec_emit :: "jsstring \<Rightarrow> nat \<Rightarrow> nat \<Rightarrow> jsstring
    \<times> nat \<times> nat" where
  "spec_emit out buffer bits =
     (if bits \<ge> 5
      then spec_emit (out @ [base32Chars ! (drop_bit (bits - 5) buffer mod 32)]) buffer (bits - 5)
      else (out, buffer, bits))"
  by pat_completeness auto
termination
  by (relation "measure (\<lambda>(out, buffer, bits). bits)") auto

declare spec_emit.simps [simp del]

fun spec_loop :: "nat list \<Rightarrow> jsstring \<Rightarrow> nat \<Rightarrow> nat
    \<Rightarrow> jsstring \<times> nat \<times> nat" where
  "spec_loop [] out buffer bits = (out, buffer, bits)"
| "spec_loop (b # bs) out buffer bits =
     (case spec_emit out (push_bit 8 buffer + b) (bits + 8) of
        (out', buffer', bits') \<Rightarrow> spec_loop bs out' buffer' bits')"

definition spec_pack :: "nat list \<Rightarrow> jsstring" where
  "spec_pack bytes =
     (case spec_loop bytes [] 0 0 of (out, buffer, bits) \<Rightarrow>
        if 1 \<le> bits \<and> bits \<le> 4
        then out @ [base32Chars ! (push_bit (5 - bits) buffer mod 32)]
        else out)"

text \<open>The bytes that the specification reads from a string of hexadecimal digits.\<close>

definition hexPairValue :: "jsstring \<Rightarrow> nat" where
  "hexPairValue p = foldl (\<lambda>acc d. acc * 16 + hexDigitValue d) 0 p"

definition hexBytes :: "jsstring \<Rightarrow> 8 word list" where
  "hexBytes hex = map (\<lambda>p. of_nat (hexPairValue p)) (substr_pairs hex)"

text \<open>
  The characters of a NormalizedSecret: symbols of the canonical alphabet, then only pad
  symbols.
\<close>

definition canonical_then_pad :: "jsstring \<Rightarrow> bool" where
  "canonical_then_pad s \<longleftrightarrow> list_all (\<lambda>c. c = 61) (dropWhile
      isBase32Char s)"

definition isNormalizedSecret :: "jsstring \<Rightarrow> bool" where
  "isNormalizedSecret s \<longleftrightarrow> s \<noteq> [] \<and> canonical_then_pad s"

section \<open>Provisioning URI (parseOTPAuthURI)\<close>

text \<open>
  The URL parser, the query-string parser and \<open>parseInt\<close> belong to the platform. The
  function takes them as a record: \<open>newURL\<close> is \<open>new URL(uri)\<close> with
      \<open>None\<close> when the
  constructor throws, \<open>newURLSearchParams\<close> gives the name-value pairs of a query
      string
  in their order, and \<open>parseInt\<close> gives a number of some type \<open>'n\<close>.
\<close>

record URL =
  protocol :: jsstring
  hostname :: jsstring
  pathname :: jsstring
  search :: jsstring

record 'n url_platform =
  newURL :: "jsstring \<Rightarrow> URL option"
  newURLSearchParams :: "jsstring \<Rightarrow> (jsstring \<times> jsstring) list"
  parseInt :: "jsstring \<Rightarrow> 'n"

record 'n OTPAuthParams =
  secret :: "jsstring option"
  issuer :: "jsstring option"
  label :: "jsstring option"
  algorithm :: "jsstring option"
  digits :: "'n option"
  period :: "'n option"

text \<open>\<open>v || undefined\<close> for a string or \<open>null\<close>: the empty
    string is falsy.\<close>

definition orUndefined :: "jsstring option \<Rightarrow> jsstring option" where
  "orUndefined v = (case v of None \<Rightarrow> None | Some x \<Rightarrow> if x = [] then
      None else Some x)"

definition parseOTPAuthURI :: "'n url_platform \<Rightarrow> jsstring \<Rightarrow> 'n
    OTPAuthParams option" where
  "parseOTPAuthURI pf uri =
     (case newURL pf uri of
        None \<Rightarrow> None
      | Some url \<Rightarrow>
          if protocol url \<noteq> js ''otpauth:'' \<or> hostname url \<noteq> js ''totp''
              then None
          else
            (let params = newURLSearchParams pf (search url);
                 get = map_of params;
                 pathParts = filter (\<lambda>t. t \<noteq> []) (split_on 47 (pathname url))
             in Some \<lparr>
                  secret = orUndefined (get (js ''secret'')),
                  issuer = orUndefined (get (js ''issuer'')),
                  label = orUndefined (case pathParts of [] \<Rightarrow> None | t # _
                      \<Rightarrow> Some t),
                  algorithm = orUndefined (get (js ''algorithm'')),
                  digits = map_option (parseInt pf) (orUndefined (get (js ''digits''))),
                  period = map_option (parseInt pf) (orUndefined (get (js ''period'')))\<rparr>))"

text \<open>The label as the specification words it: the first non-empty segment of the
    path.\<close>

definition firstNonEmptySegment :: "jsstring \<Rightarrow> jsstring option" where
  "firstNonEmptySegment path = List.find (\<lambda>t. t \<noteq> []) (split_on 47 path)"

text \<open>
  The platform's answers for one provisioning URI without a \<open>secret\<close> parameter,
  \<open>otpauth://totp/Example?issuer=Example\<close>; every other string is refused.
\<close>

definition sample_url_platform :: "nat url_platform" where
  "sample_url_platform = \<lparr>
     newURL = (\<lambda>u. if u = js ''otpauth://totp/Example?issuer=Example''
        then Some \<lparr>protocol = js ''otpauth:'', hostname = js ''totp'',
                   pathname = js ''/Example'', search = js ''?issuer=Example''\<rparr>
        else None),
     newURLSearchParams = (\<lambda>q. if q = js ''?issuer=Example''
        then [(js ''issuer'', js ''Example'')] else []),
     parseInt = (\<lambda>s. 0)\<rparr>"

section \<open>Platform codecs used by the envelope codec\<close>

subsection \<open>btoa and atob\<close>

definition base64Chars :: jsstring where
  "base64Chars = js ''ABCDEFGHIJKLMNOPQRSTUVWXYZabcdefghijklmnopqrstuvwxyz0123456789+/''"

fun sextets :: "nat list \<Rightarrow> nat list" where
  "sextets [] = []"
| "sextets [a] = [a div 4, a mod 4 * 16]"
| "sextets [a, b] = [a div 4, a mod 4 * 16 + b div 16, b mod 16 * 4]"
| "sextets (a # b # c # r) =
     [a div 4, a mod 4 * 16 + b div 16, b mod 16 * 4 + c div 64, c mod 64] @ sextets r"

text \<open>\<open>btoa(s)\<close> throws when \<open>s\<close> holds a code unit above
    255.\<close>

definition btoa :: "jsstring \<Rightarrow> jsstring option" where
  "btoa s =
     (if list_all (\<lambda>c. c < 256) s
      then Some (map (\<lambda>v. base64Chars ! v) (sextets s) @
                 replicate ((3 - length s mod 3) mod 3) 61)
      else None)"

definition isBase64Char :: "nat \<Rightarrow> bool" where
  "isBase64Char c \<longleftrightarrow>
     (65 \<le> c \<and> c \<le> 90) \<or> (97 \<le> c \<and> c \<le> 122) \<or> (48 \<le> c
         \<and> c \<le> 57) \<or> c = 43 \<or> c = 47"

definition base64Value :: "nat \<Rightarrow> nat" where
  "base64Value c =
     (if 65 \<le> c \<and> c \<le> 90 then c - 65
      else if 97 \<le> c \<and> c \<le> 122 then c - 71
      else if 48 \<le> c \<and> c \<le> 57 then c + 4
      else if c = 43 then 62 else 63)"

text \<open>The character of a 6-bit value, in closed form.\<close>

definition base64CharOf :: "nat \<Rightarrow> nat" where
  "base64CharOf v =
     (if v < 26 then 65 + v else if v < 52 then 71 + v else if v < 62 then v - 4
      else if v = 62 then 43 else 47)"

fun octets :: "nat list \<Rightarrow> nat list" where
  "octets [] = []"
| "octets [a] = []"
| "octets [a, b] = [a * 4 + b div 16]"
| "octets [a, b, c] = [a * 4 + b div 16, b mod 16 * 16 + c div 4]"
| "octets (a # b # c # d # r) =
     [a * 4 + b div 16, b mod 16 * 16 + c div 4, c mod 4 * 64 + d] @ octets r"

definition isAsciiWhitespace :: "nat \<Rightarrow> bool" where
  "isAsciiWhitespace c \<longleftrightarrow> c = 9 \<or> c = 10 \<or> c = 12 \<or> c = 13
      \<or> c = 32"

definition stripPadding :: "jsstring \<Rightarrow> jsstring" where
  "stripPadding d =
     (if d \<noteq> [] \<and> last d = 61
      then (if butlast d \<noteq> [] \<and> last (butlast d) = 61 then butlast (butlast d)
            else butlast d)
      else d)"

text \<open>
  \<open>atob(data)\<close> is the forgiving Base64 decoding: ASCII white space is removed, one or
  two trailing pad symbols are removed when the length is a multiple of four, and the
  call throws (\<open>None\<close>) when the remaining length is 1 modulo 4 or a character is
      outside
  the Base64 alphabet.
\<close>

definition atob :: "jsstring \<Rightarrow> jsstring option" where
  "atob data =
     (let d = filter (\<lambda>c. \<not> isAsciiWhitespace c) data;
          d1 = (if length d mod 4 = 0 then stripPadding d else d)
      in if length d1 mod 4 = 1 \<or> \<not> list_all isBase64Char d1 then None
         else Some (octets (map base64Value d1)))"

subsection \<open>TextDecoder\<close>

text \<open>
  The UTF-8 decoder of the Encoding standard, without the \<open>fatal\<close> flag: the state is
  \<open>bytes needed\<close>, \<open>bytes seen\<close>, the code point so far and the bounds
      of the next
  byte; an error emits U+FFFD, and a byte that is no continuation is read again in the
  initial state.
\<close>

function utf8Decoder :: "nat \<Rightarrow> nat \<Rightarrow> nat \<Rightarrow> nat
    \<Rightarrow> nat \<Rightarrow> nat list \<Rightarrow> nat list" where
  "utf8Decoder needed seen cp lower upper [] = (if needed \<noteq> 0 then [65533] else [])"
| "utf8Decoder needed seen cp lower upper (b # bs) =
     (if needed = 0 then
        (if b \<le> 127 then b # utf8Decoder 0 0 0 128 191 bs
         else if 194 \<le> b \<and> b \<le> 223 then utf8Decoder 1 0 (b mod 32) 128 191 bs
         else if 224 \<le> b \<and> b \<le> 239
           then utf8Decoder 2 0 (b mod 16) (if b = 224 then 160 else 128)
                  (if b = 237 then 159 else 191) bs
         else if 240 \<le> b \<and> b \<le> 244
           then utf8Decoder 3 0 (b mod 8) (if b = 240 then 144 else 128)
                  (if b = 244 then 143 else 191) bs
         else 65533 # utf8Decoder 0 0 0 128 191 bs)
      else if b < lower \<or> upper < b then 65533 # utf8Decoder 0 0 0 128 191 (b # bs)
      else if seen + 1 \<noteq> needed
        then utf8Decoder needed (seen + 1) (cp * 64 + b mod 64) 128 191 bs
      else (cp * 64 + b mod 64) # utf8Decoder 0 0 0 128 191 bs)"
  by pat_completeness auto
termination
  by (relation "measure (\<lambda>(needed, seen, cp, lower, upper, bs).
        2 * length bs + (if needed = 0 then 0 else 1))") auto

declare utf8Decoder.simps [simp del]

text \<open>
  \<open>new TextDecoder().decode(buffer)\<close>: UTF-8, not fatal, and
      (\<open>ignoreBOM\<close> being
  false) a byte order mark at the start is not part of the result.
\<close>

definition dropBOM :: "nat list \<Rightarrow> nat list" where
  "dropBOM cps = (case cps of [] \<Rightarrow> [] | c # r \<Rightarrow> if c = 65279 then r
      else cps)"

definition TextDecoder_decode :: "8 word list \<Rightarrow> jsstring" where
  "TextDecoder_decode buffer =
     CodePointsToString (dropBOM (utf8Decoder 0 0 0 128 191 (map unat buffer)))"

text \<open>A Unicode scalar value: a code point that is no surrogate.\<close>

definition isScalar :: "nat \<Rightarrow> bool" where
  "isScalar cp \<longleftrightarrow> cp < 1114112 \<and> \<not> (55296 \<le> cp \<and> cp
      \<le> 57343)"

text \<open>A string without lone surrogates, all code units being 16-bit.\<close>

definition wellFormed :: "jsstring \<Rightarrow> bool" where
  "wellFormed s \<longleftrightarrow>
     list_all (\<lambda>c. c < 65536) s \<and>
     list_all (\<lambda>cp. \<not> (55296 \<le> cp \<and> cp \<le> 57343)) (StringToCodePoints s)"

section \<open>Envelope codec (crypto.ts)\<close>

text \<open>
  The Web Crypto provider is a parameter. \<open>pbkdf2\<close> stands for
      \<open>importKey\<close> followed by
  \<open>deriveKey\<close> (PBKDF2, SHA-256, 100000 iterations, AES-GCM key of 256 bits) on the
  password bytes and the salt; \<open>aes_gcm_encrypt\<close> and
      \<open>aes_gcm_decrypt\<close> take the key, the
  IV and the data. \<open>None\<close> is a rejected promise; for
      \<open>aes_gcm_decrypt\<close> that is the
  failed check of the authentication tag.
\<close>

record 'k webcrypto =
  pbkdf2 :: "8 word list \<Rightarrow> 8 word list \<Rightarrow> 'k option"
  aes_gcm_encrypt :: "'k \<Rightarrow> 8 word list \<Rightarrow> 8 word list \<Rightarrow> 8
      word list option"
  aes_gcm_decrypt :: "'k \<Rightarrow> 8 word list \<Rightarrow> 8 word list \<Rightarrow> 8
      word list option"

record Result =
  success :: bool
  error :: "message option"

record EncryptionResult = Result +
  encryptedData :: jsstring

record DecryptionResult = Result +
  plaintext :: jsstring

text \<open>The calls that \<open>decryptPayload\<close> makes to the provider, in their
    order.\<close>

datatype crypto_call = DeriveKey | Decrypt

definition PASSWORD_MIN_LENGTH :: nat where
  "PASSWORD_MIN_LENGTH = 8"

definition SALT_LENGTH :: nat where
  "SALT_LENGTH = 16"

definition IV_LENGTH :: nat where
  "IV_LENGTH = 12"

definition validateEncryptionInput :: "jsstring \<Rightarrow> jsstring \<Rightarrow>
    ValidationResult" where
  "validateEncryptionInput plain password =
     (if plain = [] \<or> length (trim plain) = 0
      then \<lparr>isValid = False, errorMessage = Some ENTER_PLAINTEXT, warningMessage =
          None\<rparr>
      else if password = [] \<or> length password < PASSWORD_MIN_LENGTH
      then \<lparr>isValid = False, errorMessage = Some WEAK_PASSWORD, warningMessage =
          None\<rparr>
      else \<lparr>isValid = True, errorMessage = None, warningMessage = None\<rparr>)"

text \<open>
  \<open>crypto.getRandomValues\<close> reads the platform's random source, an unbounded sequence of
  bytes here; the rest of the sequence is returned with the bytes drawn.
\<close>

definition generateRandomBytes :: "nat \<Rightarrow> (nat \<Rightarrow> 8 word) \<Rightarrow>
    8 word list \<times> (nat \<Rightarrow> 8 word)" where
  "generateRandomBytes n random = (map random [0..<n], \<lambda>i. random (i + n))"

definition deriveKey :: "'k webcrypto \<Rightarrow> jsstring \<Rightarrow> 8 word list
    \<Rightarrow> 'k option" where
  "deriveKey wc password salt = pbkdf2 wc (TextEncoder_encode password) salt"

text \<open>
  \<open>String.fromCharCode(...combinedBuffer)\<close> passes every byte as one argument of the
  call. An engine accepts a bounded number of arguments and throws a \<open>RangeError\<close> beyond
  it; the bound is the parameter \<open>maxArguments\<close>. \<open>None\<close> is the thrown error.
\<close>

definition fromCharCodeSpread :: "nat \<Rightarrow> 8 word list \<Rightarrow> jsstring option" where
  "fromCharCodeSpread maxArguments bytes =
     (if length bytes \<le> maxArguments then Some (map unat bytes) else None)"

text \<open>
  The two functions are given twice. First in direct form: every call of the \<open>try\<close>
  block that can throw or reject is followed at once by the result that the \<open>catch\<close>
  block returns. Then, as \<open>encryptPayload_async\<close> and \<open>decryptPayload_async\<close>, with the
  exceptions and the \<open>try\<close> and \<open>catch\<close> blocks of the source written out; there the
  value is the completion of the promise, which can be a thrown exception.
\<close>

definition encryptPayload ::
    "'k webcrypto \<Rightarrow> nat \<Rightarrow> (nat \<Rightarrow> 8 word) \<Rightarrow> jsstring \<Rightarrow> jsstring \<Rightarrow> EncryptionResult" where
  "encryptPayload wc maxArguments random plain password =
     (let validation = validateEncryptionInput plain password;
          failed = \<lparr>success = False, error = Some ENCRYPTION_FAILED, encryptedData = []\<rparr>
      in if \<not> isValid validation
         then \<lparr>success = False, error = errorMessage validation, encryptedData = []\<rparr>
         else
           (case generateRandomBytes SALT_LENGTH random of (salt, random1) \<Rightarrow>
            case generateRandomBytes IV_LENGTH random1 of (iv, random2) \<Rightarrow>
            case deriveKey wc password salt of
              None \<Rightarrow> failed
            | Some key \<Rightarrow>
                (case aes_gcm_encrypt wc key iv (TextEncoder_encode plain) of
                   None \<Rightarrow> failed
                 | Some encryptedBuffer \<Rightarrow>
                     (case fromCharCodeSpread maxArguments (salt @ iv @ encryptedBuffer) of
                        None \<Rightarrow> failed
                      | Some binaryString \<Rightarrow>
                          (case btoa binaryString of
                             None \<Rightarrow> failed
                           | Some b64 \<Rightarrow>
                               \<lparr>success = True, error = None, encryptedData = b64\<rparr>)))))"

definition decryptPayload ::
    "'k webcrypto \<Rightarrow> jsstring \<Rightarrow> jsstring \<Rightarrow> DecryptionResult
        \<times> crypto_call list" where
  "decryptPayload wc encrypted password =
     (let failed = (\<lambda>m. \<lparr>success = False, error = Some m, plaintext =
         []\<rparr>) in
      if encrypted = [] \<or> password = [] then (failed ENTER_DATA_AND_PASSWORD, [])
      else if length password < PASSWORD_MIN_LENGTH then (failed WEAK_PASSWORD, [])
      else
        (case atob encrypted of
           None \<Rightarrow> (failed INVALID_ENCRYPTED_DATA, [])
         | Some binaryString \<Rightarrow>
             (let combinedBuffer = map of_nat binaryString :: 8 word list in
              if length combinedBuffer < SALT_LENGTH + IV_LENGTH + 16
              then (failed INVALID_ENCRYPTED_DATA, [])
              else
                (let salt = take SALT_LENGTH combinedBuffer;
                     iv = take IV_LENGTH (drop SALT_LENGTH combinedBuffer);
                     ciphertext = drop (SALT_LENGTH + IV_LENGTH) combinedBuffer
                 in case deriveKey wc password salt of
                      None \<Rightarrow> (failed DECRYPTION_FAILED, [DeriveKey])
                    | Some key \<Rightarrow>
                        (case aes_gcm_decrypt wc key iv ciphertext of
                           None \<Rightarrow> (failed DECRYPTION_FAILED, [DeriveKey, Decrypt])
                         | Some decryptedBuffer \<Rightarrow>
                             (\<lparr>success = True, error = None,
                               plaintext = TextDecoder_decode decryptedBuffer\<rparr>,
                              [DeriveKey, Decrypt]))))))"

subsection \<open>The two functions with their exceptions\<close>

text \<open>
  A statement completes normally with a value or throws. \<open>and_then\<close> is the sequence of
  two statements, \<open>try_catch\<close> the \<open>try\<close> statement with its handler, and \<open>or_throw\<close>
  the call of a platform function whose failure (\<open>None\<close>) is the given exception; for a
  promise under \<open>await\<close> that is its rejection. \<open>encryptPayload_try\<close> and
  \<open>decryptPayload_try\<close> are the \<open>try\<close> blocks of the two functions, which can throw;
  \<open>encryptPayload_async\<close> and \<open>decryptPayload_async\<close> are the functions, each its
  \<open>try\<close> block under its \<open>catch\<close> block. Their completion is the one of the promise
  returned: \<open>Throw\<close> is a rejected promise.
\<close>

datatype exn = RangeError | InvalidCharacterError | ProviderRejection

datatype 'a completion = Throw exn | Normal 'a

definition and_then :: "'a completion \<Rightarrow> ('a \<Rightarrow> 'b completion) \<Rightarrow> 'b completion" where
  "and_then m f = (case m of Throw e \<Rightarrow> Throw e | Normal x \<Rightarrow> f x)"

definition try_catch :: "'a completion \<Rightarrow> (exn \<Rightarrow> 'a completion) \<Rightarrow> 'a completion" where
  "try_catch m handler = (case m of Throw e \<Rightarrow> handler e | Normal x \<Rightarrow> Normal x)"

definition or_throw :: "exn \<Rightarrow> 'a option \<Rightarrow> 'a completion" where
  "or_throw e v = (case v of None \<Rightarrow> Throw e | Some x \<Rightarrow> Normal x)"

definition encryptPayload_try ::
    "'k webcrypto \<Rightarrow> nat \<Rightarrow> (nat \<Rightarrow> 8 word) \<Rightarrow> jsstring \<Rightarrow> jsstring \<Rightarrow>
       EncryptionResult completion" where
  "encryptPayload_try wc maxArguments random plain password =
     (let validation = validateEncryptionInput plain password in
      if \<not> isValid validation
      then Normal \<lparr>success = False, error = errorMessage validation, encryptedData = []\<rparr>
      else
        (case generateRandomBytes SALT_LENGTH random of (salt, random1) \<Rightarrow>
         case generateRandomBytes IV_LENGTH random1 of (iv, random2) \<Rightarrow>
         and_then (or_throw ProviderRejection (deriveKey wc password salt)) (\<lambda>key.
         and_then (or_throw ProviderRejection
                     (aes_gcm_encrypt wc key iv (TextEncoder_encode plain)))
           (\<lambda>encryptedBuffer.
         and_then (or_throw RangeError
                     (fromCharCodeSpread maxArguments (salt @ iv @ encryptedBuffer)))
           (\<lambda>binaryString.
         and_then (or_throw InvalidCharacterError (btoa binaryString)) (\<lambda>b64.
         Normal \<lparr>success = True, error = None, encryptedData = b64\<rparr>))))))"

definition encryptPayload_async ::
    "'k webcrypto \<Rightarrow> nat \<Rightarrow> (nat \<Rightarrow> 8 word) \<Rightarrow> jsstring \<Rightarrow> jsstring \<Rightarrow>
       EncryptionResult completion" where
  "encryptPayload_async wc maxArguments random plain password =
     try_catch (encryptPayload_try wc maxArguments random plain password)
       (\<lambda>e. Normal \<lparr>success = False, error = Some ENCRYPTION_FAILED, encryptedData = []\<rparr>)"

text \<open>
  The inner \<open>try\<close> statement of \<open>decryptPayload\<close> either leaves the function from its
  handler (\<open>Inl\<close>, with the result returned) or goes on with the decoded buffer (\<open>Inr\<close>).
\<close>

definition decryptPayload_try ::
    "'k webcrypto \<Rightarrow> jsstring \<Rightarrow> jsstring \<Rightarrow> DecryptionResult completion" where
  "decryptPayload_try wc encrypted password =
     (let failed = (\<lambda>m. \<lparr>success = False, error = Some m, plaintext = []\<rparr>) in
      if encrypted = [] \<or> password = [] then Normal (failed ENTER_DATA_AND_PASSWORD)
      else if length password < PASSWORD_MIN_LENGTH then Normal (failed WEAK_PASSWORD)
      else
        and_then
          (try_catch
             (and_then (or_throw InvalidCharacterError (atob encrypted))
                (\<lambda>binaryString. Normal (Inr (map of_nat binaryString :: 8 word list))))
             (\<lambda>e. Normal (Inl (failed INVALID_ENCRYPTED_DATA))))
          (\<lambda>step. case step of
             Inl result \<Rightarrow> Normal result
           | Inr combinedBuffer \<Rightarrow>
               if length combinedBuffer < SALT_LENGTH + IV_LENGTH + 16
               then Normal (failed INVALID_ENCRYPTED_DATA)
               else
                 (let salt = take SALT_LENGTH combinedBuffer;
                      iv = take IV_LENGTH (drop SALT_LENGTH combinedBuffer);
                      ciphertext = drop (SALT_LENGTH + IV_LENGTH) combinedBuffer
                  in and_then (or_throw ProviderRejection (deriveKey wc password salt))
                       (\<lambda>key.
                     and_then (or_throw ProviderRejection
                                 (aes_gcm_decrypt wc key iv ciphertext))
                       (\<lambda>decryptedBuffer.
                     Normal \<lparr>success = True, error = None,
                             plaintext = TextDecoder_decode decryptedBuffer\<rparr>)))))"

definition decryptPayload_async ::
    "'k webcrypto \<Rightarrow> jsstring \<Rightarrow> jsstring \<Rightarrow> DecryptionResult completion" where
  "decryptPayload_async wc encrypted password =
     try_catch (decryptPayload_try wc encrypted password)
       (\<lambda>e. Normal \<lparr>success = False, error = Some DECRYPTION_FAILED, plaintext = []\<rparr>)"

subsection \<open>Requirements on the provider, and a provider to evaluate with\<close>

text \<open>
  What the round trip needs from the provider: key derivation and encryption do not
  reject, the ciphertext carries a tag of 16 bytes, and decryption with the key and the
  IV of the encryption gives the plaintext back.
\<close>

definition provider_correct :: "'k webcrypto \<Rightarrow> bool" where
  "provider_correct wc \<longleftrightarrow>
     (\<forall>pw salt. pbkdf2 wc pw salt \<noteq> None) \<and>
     (\<forall>k iv m. \<exists>c. aes_gcm_encrypt wc k iv m = Some c \<and>
        length c = length m + 16 \<and> aes_gcm_decrypt wc k iv c = Some m)"

text \<open>
  A provider for evaluation only: the key is the password bytes followed by the salt, and
  the tag is the sum of the key, IV and plaintext bytes, sixteen times.
\<close>

definition toy_tag :: "8 word list \<Rightarrow> 8 word list \<Rightarrow> 8 word list \<Rightarrow> 8 word list" where
  "toy_tag k iv m =
     (let t = sum_list (k @ iv @ m) in [t, t, t, t, t, t, t, t, t, t, t, t, t, t, t, t])"

definition toy_crypto :: "(8 word list) webcrypto" where
  "toy_crypto = \<lparr>
     pbkdf2 = (\<lambda>pw salt. Some (pw @ salt)),
     aes_gcm_encrypt = (\<lambda>k iv m. Some (m @ toy_tag k iv m)),
     aes_gcm_decrypt = (\<lambda>k iv c.
        if 16 \<le> length c \<and>
           drop (length c - 16) c = toy_tag k iv (take (length c - 16) c)
        then Some (take (length c - 16) c) else None)\<rparr>"

definition zero_random :: "nat \<Rightarrow> 8 word" where
  "zero_random i = 0"

text \<open>Two argument limits to evaluate with, the second below the size of any envelope.\<close>

definition sample_limit :: nat where
  "sample_limit = 65535"

definition tiny_limit :: nat where
  "tiny_limit = 10"

text \<open>
  An envelope of the provider above for the plaintext \<open>hi\<close>, the password
  \<open>AAAAAAAA\<close> and a salt and an IV of zero bytes, and the same envelope with one bit
  of the ciphertext flipped.
\<close>

definition sample_envelope :: jsstring where
  "sample_envelope = js ''AAAAAAAAAAAAAAAAAAAAAAAAAAAAAAAAAAAAAGhp2dnZ2dnZ2dnZ2dnZ2dnZ2Q==''"

definition tampered_envelope :: jsstring where
  "tampered_envelope = js ''AAAAAAAAAAAAAAAAAAAAAAAAAAAAAAAAAAAAAGlp2dnZ2dnZ2dnZ2dnZ2dnZ2Q==''"

section \<open>Properties of the secret normalizer\<close>

subsection \<open>Evaluation of strings and regular expressions\<close>

lemmas string_eval = js_def isWhiteSpace_def toUpperCase_def upperCodePoint_def
  CodePointsToString_def UTF16EncodeCodePoint_def isLeadingSurrogate_def
  isTrailingSurrogate_def cleanSeparators_def
lemmas regex_eval = test_base32_def test_hex_def isBase32Char_def isHexDigit_def

text \<open>
  On a string of ASCII code units the upper-casing does not consult the table; the closed
  theorems below, all on ASCII inputs, are stated with the table \<open>no_mapping\<close>.
\<close>

lemma StringToCodePoints_ascii:
  "list_all (\<lambda>c. c < 128) s \<Longrightarrow> StringToCodePoints s = s"
  by (induction s rule: StringToCodePoints.induct) (auto simp: isLeadingSurrogate_def)

lemma toUpperCase_ascii:
  assumes "list_all (\<lambda>c. c < 128) s"
  shows "toUpperCase tab s = map (\<lambda>c. if 97 \<le> c \<and> c \<le> 122 then c - 32 else c) s"
proof -
  have "concat (map (\<lambda>cp. UTF16EncodeCodePoint cp) (concat (map (upperCodePoint tab) s))) =
      map (\<lambda>c. if 97 \<le> c \<and> c \<le> 122 then c - 32 else c) s"
    using assms
    by (induction s) (auto simp: upperCodePoint_def UTF16EncodeCodePoint_def)
  then show ?thesis
    by (simp add: toUpperCase_def CodePointsToString_def StringToCodePoints_ascii[OF assms])
qed

subsection \<open>The packing loop\<close>

lemma and31_take: "(w :: 32 word) AND 31 = take_bit 5 w"
  by (simp add: take_bit_eq_mask mask_eq_exp_minus_1)

lemma and31_bound: "unat ((w :: 32 word) AND 31) < 32"
proof -
  have "unat (take_bit 5 w) = take_bit 5 (unat w)"
    by (simp add: unsigned_take_bit_eq)
  also have "\<dots> < 2 ^ 5"
    by (rule take_bit_nat_less_exp)
  finally show ?thesis
    by (simp add: and31_take)
qed

lemma base32Chars_length: "length base32Chars = 32"
  by (simp add: base32Chars_def js_def)

lemma base32Chars_set: "c \<in> set base32Chars \<Longrightarrow> isBase32Char c"
  by (auto simp: base32Chars_def js_def isBase32Char_def)

lemma base32Chars_nth: "i < 32 \<Longrightarrow> base32Chars ! i \<in> set base32Chars"
  by (simp add: base32Chars_length)

lemma emit5_props:
  "emit5 r b k = (r', b', k') \<Longrightarrow>
     length r' = length r + k div 5 \<and> k' = k mod 5 \<and> b' = b \<and>
     set r' \<subseteq> set r \<union> set base32Chars"
proof (induction r b k rule: emit5.induct)
  case (1 result buffer bitsLeft)
  show ?case
  proof (cases "bitsLeft \<ge> 5")
    case True
    let ?c = "base32Chars ! unat (signed_drop_bit ((bitsLeft - 5) mod 32) buffer AND 31)"
    have c: "?c \<in> set base32Chars"
      by (rule base32Chars_nth) (rule and31_bound)
    from True 1(2) have "emit5 (result @ [?c]) buffer (bitsLeft - 5) = (r', b', k')"
      by (simp add: emit5.simps)
    from 1(1)[OF True this] c True show ?thesis
      by (auto simp: le_div_geq le_mod_geq)
  next
    case False
    with 1(2) show ?thesis by (simp add: emit5.simps)
  qed
qed

lemma div5_step:
  fixes a b :: nat
  shows "a div 5 + (a mod 5 + b) div 5 = (a + b) div 5"
    and "(a mod 5 + b) mod 5 = (a + b) mod 5"
proof -
  have "a + b = a div 5 * 5 + (a mod 5 + b)" by simp
  then have "(a + b) div 5 = (a div 5 * 5 + (a mod 5 + b)) div 5" by simp
  also have "\<dots> = a div 5 + (a mod 5 + b) div 5" by (simp only: div_mult_self3)
  finally show "a div 5 + (a mod 5 + b) div 5 = (a + b) div 5" by simp
  show "(a mod 5 + b) mod 5 = (a + b) mod 5" by (simp add: mod_add_left_eq)
qed

lemma ceil5:
  fixes m :: nat
  shows "m div 5 + (if 0 < m mod 5 then 1 else 0) = (m + 4) div 5"
proof -
  define q r where "q = m div 5" and "r = m mod 5"
  then have m: "m = q * 5 + r" and r: "r < 5" by simp_all
  have "(q * 5 + r + 4) div 5 = q + (r + 4) div 5"
    by (simp only: add.assoc div_mult_self3)
  moreover from r have "(r + 4) div 5 = (if 0 < r then 1 else 0)" by auto
  ultimately show ?thesis by (simp add: m[symmetric] q_def[symmetric] r_def[symmetric])
qed

lemma ceil5_zero: "((8 * n + 4) div 5 = 0) = (n = (0::nat))"
  by (cases n) simp_all

lemma packLoop_props:
  "packLoop bytes r b k = (r', b', k') \<Longrightarrow> k < 5 \<Longrightarrow>
     length r' = length r + (k + 8 * length bytes) div 5 \<and> k' = (k + 8 * length bytes)
         mod 5 \<and>
     set r' \<subseteq> set r \<union> set base32Chars"
proof (induction bytes arbitrary: r b k)
  case Nil
  then show ?case by simp
next
  case (Cons byte bytes)
  obtain r1 b1 k1 where e: "emit5 r (push_bit 8 b OR byte) (k + 8) = (r1, b1, k1)"
    by (metis prod_cases3)
  from emit5_props[OF e] have p1: "length r1 = length r + (k + 8) div 5" "k1 = (k + 8) mod 5"
    "set r1 \<subseteq> set r \<union> set base32Chars" by auto
  from Cons.prems e have "packLoop bytes r1 b1 k1 = (r', b', k')" by simp
  from Cons.IH[OF this] p1 have
    "length r' = length r1 + (k1 + 8 * length bytes) div 5" "k' = (k1 + 8 * length bytes) mod 5"
    "set r' \<subseteq> set r1 \<union> set base32Chars" by auto
  moreover have "k + 8 + 8 * length bytes = k + 8 * length (byte # bytes)"
    by simp
  then have "(k + 8) div 5 + ((k + 8) mod 5 + 8 * length bytes) div 5 =
      (k + 8 * length (byte # bytes)) div 5"
    and "((k + 8) mod 5 + 8 * length bytes) mod 5 = (k + 8 * length (byte # bytes)) mod 5"
    using div5_step[of "k + 8" "8 * length bytes"] by (simp_all only:)
  ultimately show ?case using p1 by auto
qed

lemma base32Pack_length: "length (base32Pack bytes) = (8 * length bytes + 4) div 5"
proof -
  obtain r b k where e: "packLoop bytes [] 0 0 = (r, b, k)"
    by (metis prod_cases3)
  from packLoop_props[OF e] have "length r = (8 * length bytes) div 5" "k = (8 * length bytes)
      mod 5"
    by auto
  then have "length (base32Pack bytes) =
      8 * length bytes div 5 + (if 0 < 8 * length bytes mod 5 then 1 else 0)"
    by (simp add: base32Pack_def e)
  then show ?thesis
    by (simp only: ceil5)
qed

lemma base32Pack_set: "set (base32Pack bytes) \<subseteq> set base32Chars"
proof -
  obtain r b k where e: "packLoop bytes [] 0 0 = (r, b, k)"
    by (metis prod_cases3)
  from packLoop_props[OF e] have "set r \<subseteq> set base32Chars"
    by auto
  then show ?thesis
    by (simp add: base32Pack_def e base32Chars_nth and31_bound)
qed


lemma unat_take5_of_nat:
  "unat (take_bit 5 (of_nat m :: 32 word)) = m mod 32"
proof -
  have "unat (take_bit 5 (of_nat m :: 32 word)) = take_bit 5 (take_bit 32 m)"
    by (simp only: unsigned_take_bit_eq unsigned_of_nat) simp
  also have "\<dots> = take_bit 5 m"
    by simp
  also have "\<dots> = m mod 32"
    by (simp add: take_bit_eq_mod)
  finally show ?thesis .
qed

lemma emit_index:
  assumes "5 \<le> k" "k \<le> 32"
  shows "unat (signed_drop_bit (k - 5) (of_nat n :: 32 word) AND 31) = drop_bit (k - 5) n mod 32"
proof -
  let ?j = "k - 5"
  from assms have j: "?j + 5 \<le> 32" by auto
  then have m: "min 5 (32 - ?j) = 5" by simp
  have "take_bit 5 (signed_drop_bit ?j (of_nat n :: 32 word)) = take_bit 5 (drop_bit ?j
      (of_nat n :: 32 word))"
    using j by (intro bit_word_eqI) (auto simp: bit_simps)
  moreover have "unat (take_bit 5 (drop_bit ?j (of_nat n :: 32 word))) =
      take_bit 5 (drop_bit ?j (take_bit 32 n))"
    by (simp only: unsigned_take_bit_eq unsigned_drop_bit_eq unsigned_of_nat) simp
  moreover have "take_bit 5 (drop_bit ?j (take_bit 32 n)) = take_bit 5 (drop_bit ?j n)"
    by (simp add: drop_bit_take_bit m)
  moreover have "take_bit 5 (drop_bit ?j n) = drop_bit ?j n mod 32"
    by (simp add: take_bit_eq_mod)
  ultimately have "unat (take_bit 5 (signed_drop_bit ?j (of_nat n :: 32 word))) = drop_bit ?j
      n mod 32"
    by (simp only:)
  then show ?thesis
    by (simp only: and31_take)
qed

lemma final_index:
  "unat (push_bit j (of_nat n :: 32 word) AND 31) = push_bit j n mod 32"
proof -
  have "push_bit j (of_nat n :: 32 word) = of_nat (push_bit j n)"
    by (simp add: of_nat_push_bit)
  then show ?thesis
    by (simp only: and31_take unat_take5_of_nat)
qed

lemma step_buffer:
  "push_bit 8 (of_nat n :: 32 word) OR ucast (b :: 8 word) = of_nat (push_bit 8 n + unat b)"
proof -
  have "push_bit 8 (of_nat n :: 32 word) + ucast b = push_bit 8 (of_nat n) OR ucast b"
    by (rule disjunctive_add_eq_or) (auto simp: bit_eq_iff bit_simps dest: bit_imp_le_length)
  then show ?thesis
    by (simp add: of_nat_push_bit)
qed

lemma spec_emit_bits: "spec_emit r n k = (r', n', k') \<Longrightarrow> k' = k mod 5 \<and> n'
    = n"
proof (induction r n k rule: spec_emit.induct)
  case (1 out buffer bits)
  then show ?case
    by (cases "5 \<le> bits") (auto simp: spec_emit.simps[of out buffer bits] le_mod_geq)
qed

lemma emit5_refines:
  "k \<le> 32 \<Longrightarrow> emit5 r (of_nat n) k = (case spec_emit r n k of (r', n', k')
      \<Rightarrow> (r', of_nat n', k'))"
proof (induction r n k rule: spec_emit.induct)
  case (1 out buffer bits)
  show ?case
  proof (cases "5 \<le> bits")
    case True
    with 1 show ?thesis
      by (simp add: emit5.simps[of out _ bits] spec_emit.simps[of out buffer bits] emit_index)
  next
    case False
    then show ?thesis
      by (simp add: emit5.simps[of out _ bits] spec_emit.simps[of out buffer bits])
  qed
qed

lemma packLoop_refines:
  "k < 5 \<Longrightarrow> packLoop (map ucast (bs :: 8 word list)) r (of_nat n) k =
     (case spec_loop (map unat bs) r n k of (r', n', k') \<Rightarrow> (r', of_nat n', k'))"
proof (induction bs arbitrary: r n k)
  case Nil
  then show ?case by simp
next
  case (Cons b bs)
  obtain r1 n1 k1 where e: "spec_emit r (push_bit 8 n + unat b) (k + 8) = (r1, n1, k1)"
    by (metis prod_cases3)
  from spec_emit_bits[OF e] have k1: "k1 < 5" by simp
  from Cons.prems have "k + 8 \<le> 32" by simp
  from emit5_refines[OF this, of r "push_bit 8 n + unat b"]
  have "emit5 r (push_bit 8 (of_nat n) OR ucast b) (k + 8) = (r1, of_nat n1, k1)"
    by (simp only: step_buffer e prod.case)
  then show ?case
    using Cons.IH[OF k1, of r1 n1] by (simp add: e)
qed

lemma spec_loop_bits: "spec_loop bs r n k = (r', n', k') \<Longrightarrow> k < 5
    \<Longrightarrow> k' < 5"
proof (induction bs arbitrary: r n k)
  case Nil
  then show ?case by simp
next
  case (Cons b bs)
  obtain r1 n1 k1 where e: "spec_emit r (push_bit 8 n + b) (k + 8) = (r1, n1, k1)"
    by (metis prod_cases3)
  from spec_emit_bits[OF e] have k1: "k1 < 5" by simp
  from Cons.prems e have "spec_loop bs r1 n1 k1 = (r', n', k')" by simp
  from Cons.IH[OF this k1] show ?case .
qed

lemma base32Pack_refines: "base32Pack (map ucast (bs :: 8 word list)) = spec_pack (map unat bs)"
proof -
  obtain r n k where e: "spec_loop (map unat bs) [] 0 0 = (r, n, k)"
    by (metis prod_cases3)
  from spec_loop_bits[OF e] have k: "k < 5" by simp
  have "packLoop (map ucast bs) [] (of_nat 0) 0 = (r, of_nat n, k)"
    using packLoop_refines[of 0 bs "[]" 0] by (simp only: e prod.case)
  then have p: "packLoop (map ucast bs) [] 0 0 = (r, of_nat n, k)" by simp
  from k have "(5 - k) mod 32 = 5 - k" by simp
  with k show ?thesis
    by (auto simp: base32Pack_def spec_pack_def e p final_index)
qed

lemma base32Pack_exact:
  fixes bs :: "8 word list"
  shows "base32Pack (map ucast bs) = spec_pack (map unat bs) \<and>
         length (base32Pack (map ucast bs)) = (8 * length bs + 4) div 5 \<and>
         61 \<notin> set (base32Pack (map ucast bs))"
proof -
  have "61 \<notin> set base32Chars"
    by (simp add: base32Chars_def js_def)
  with base32Pack_set[of "map ucast bs"] have np: "61 \<notin> set (base32Pack (map ucast bs))"
    by blast
  show ?thesis
  proof (intro conjI)
    show "base32Pack (map ucast bs) = spec_pack (map unat bs)"
      by (rule base32Pack_refines)
    show "length (base32Pack (map ucast bs)) = (8 * length bs + 4) div 5"
      using base32Pack_length[of "map ucast bs"] by simp
    show "61 \<notin> set (base32Pack (map ucast bs))"
      by (rule np)
  qed
qed

subsection \<open>The hexadecimal path\<close>

lemma hexDigit_not_ws: "isHexDigit c \<Longrightarrow> \<not> isWhiteSpace c"
  by (auto simp: isHexDigit_def isWhiteSpace_def)

lemma hexDigitValue_le: "isHexDigit c \<Longrightarrow> hexDigitValue c \<le> 15"
  by (auto simp: isHexDigit_def hexDigitValue_def)

lemma parseInt16_pair:
  assumes "list_all isHexDigit p" "p \<noteq> []"
  shows "parseInt16 p = Some (int (hexPairValue p))"
proof -
  from assms obtain a r where p: "p = a # r" by (cases p) auto
  with assms have a: "isHexDigit a" by simp
  then have ws: "dropWhile isWhiteSpace p = p"
    by (simp add: p hexDigit_not_ws)
  from a have sg: "a \<noteq> 45" "a \<noteq> 43" by (auto simp: isHexDigit_def)
  have px: "(case p of a # b # r \<Rightarrow> if a = 48 \<and> (b = 120 \<or> b = 88) then r
      else p | _ \<Rightarrow> p) = p"
    using assms by (auto simp: isHexDigit_def split: list.splits)
  have tw: "takeWhile isHexDigit p = p"
    using assms(1) by (simp add: list_all_iff takeWhile_eq_all_conv)
  show ?thesis
    unfolding parseInt16_def Let_def ws
    using sg px tw assms(2) by (simp add: p hexPairValue_def)
qed

lemma hexPairValue_bound:
  assumes "list_all isHexDigit p" "length p \<le> 2"
  shows "hexPairValue p < 256"
proof -
  consider "p = []" | a where "p = [a]" | a b where "p = [a, b]"
    using assms(2) by (cases p; cases "tl p") auto
  then show ?thesis
  proof cases
    case 1 then show ?thesis by (simp add: hexPairValue_def)
  next
    case 2 with assms hexDigitValue_le[of a] show ?thesis by (simp add: hexPairValue_def)
  next
    case 3 with assms hexDigitValue_le[of a] hexDigitValue_le[of b] show ?thesis
      by (simp add: hexPairValue_def)
  qed
qed

lemma substr_pairs_props:
  "list_all P h \<Longrightarrow> q \<in> set (substr_pairs h) \<Longrightarrow> list_all P q
      \<and> q \<noteq> [] \<and> length q \<le> 2"
  by (induction h arbitrary: q rule: substr_pairs.induct) auto

lemma substr_pairs_length: "length (substr_pairs h) = (length h + 1) div 2"
  by (induction h rule: substr_pairs.induct) auto

lemma ucast_byte_of_nat: "v < 256 \<Longrightarrow> (ucast (of_nat v :: 8 word) :: 32 word) =
    of_nat v"
  by (simp add: unsigned_of_nat take_bit_nat_eq_self)

lemma hex_path_bytes:
  assumes "test_hex h"
  shows "map (\<lambda>p. ToInt32 (parseInt16 p)) (substr_pairs h) = map ucast (hexBytes h)"
proof -
  from assms have h: "list_all isHexDigit h" by (simp add: test_hex_def)
  have "ToInt32 (parseInt16 q) = ucast (of_nat (hexPairValue q) :: 8 word)"
    if "q \<in> set (substr_pairs h)" for q
  proof -
    from substr_pairs_props[OF h that] have q: "list_all isHexDigit q" "q \<noteq> []" "length
        q \<le> 2"
      by auto
    show ?thesis
      by (simp add: parseInt16_pair[OF q(1,2)] ToInt32_def ucast_byte_of_nat[OF
          hexPairValue_bound[OF q(1,3)]])
  qed
  then show ?thesis
    by (simp add: hexBytes_def)
qed

lemma hexBytes_length: "length (hexBytes h) = (length h + 1) div 2"
  by (simp add: hexBytes_def substr_pairs_length)

lemma hexBytes_nonempty: "test_hex h \<Longrightarrow> hexBytes h \<noteq> []"
  by (cases h rule: substr_pairs.cases) (auto simp: hexBytes_def test_hex_def)

text \<open>
  Claim C4. On the hexadecimal path and on the raw-text path the emitted string is the
  packing of the specification applied to the bytes of that path, it has
  \<open>\<lceil>8 n / 5\<rceil>\<close> symbols for \<open>n\<close> bytes, and it holds no
      pad symbol.
\<close>

theorem packing_exact:
  "(test_hex hex \<longrightarrow>
      hexToBase32 hex = spec_pack (map unat (hexBytes hex)) \<and>
      length (hexToBase32 hex) = (8 * length (hexBytes hex) + 4) div 5 \<and>
      61 \<notin> set (hexToBase32 hex)) \<and>
   (\<not> test_base32 (toUpperCase tab (filter (\<lambda>c. \<not> isWhiteSpace c) words))
       \<longrightarrow>
      wordsToBase32 tab words =
        spec_pack (map unat (TextEncoder_encode
          (toUpperCase tab (filter (\<lambda>c. \<not> isWhiteSpace c) words)))) \<and>
      length (wordsToBase32 tab words) =
        (8 * length (TextEncoder_encode
          (toUpperCase tab (filter (\<lambda>c. \<not> isWhiteSpace c) words))) + 4) div 5 \<and>
      61 \<notin> set (wordsToBase32 tab words))"
proof -
  let ?c = "toUpperCase tab (filter (\<lambda>c. \<not> isWhiteSpace c) words)"
  have "hexToBase32 hex = base32Pack (map ucast (hexBytes hex))" if "test_hex hex"
    by (simp add: hexToBase32_def hex_path_bytes[OF that])
  with base32Pack_exact[of "hexBytes hex"] have hex_part: "test_hex hex \<longrightarrow>
      hexToBase32 hex = spec_pack (map unat (hexBytes hex)) \<and>
      length (hexToBase32 hex) = (8 * length (hexBytes hex) + 4) div 5 \<and>
      61 \<notin> set (hexToBase32 hex)"
    by metis
  have "wordsToBase32 tab words = base32Pack (map ucast (TextEncoder_encode ?c))"
    if "\<not> test_base32 ?c"
    using that by (simp add: wordsToBase32_def)
  with base32Pack_exact[of "TextEncoder_encode ?c"] have words_part: "\<not> test_base32 ?c
      \<longrightarrow>
      wordsToBase32 tab words = spec_pack (map unat (TextEncoder_encode ?c)) \<and>
      length (wordsToBase32 tab words) = (8 * length (TextEncoder_encode ?c) + 4) div 5 \<and>
      61 \<notin> set (wordsToBase32 tab words)"
    by metis
  from hex_part words_part show ?thesis by (rule conjI)
qed

lemma words_sample_combined:
  "toUpperCase tab (filter (\<lambda>c. \<not> isWhiteSpace c) (js ''my key!'')) = js ''MYKEY!''"
  by (simp add: string_eval)

theorem packing_exact_witness:
  "test_hex (js ''1A9F'') \<and>
   hexToBase32 (js ''1A9F'') = spec_pack (map unat (hexBytes (js ''1A9F''))) \<and>
   length (hexToBase32 (js ''1A9F'')) = 4 \<and>
   \<not> test_base32 (js ''MYKEY!'') \<and>
   wordsToBase32 no_mapping (js ''my key!'') =
     spec_pack (map unat (TextEncoder_encode (js ''MYKEY!''))) \<and>
   length (wordsToBase32 no_mapping (js ''my key!'')) = 10"
proof -
  have h: "test_hex (js ''1A9F'')"
    by (simp add: regex_eval js_def)
  have w: "\<not> test_base32 (js ''MYKEY!'')"
    by (simp add: regex_eval js_def)
  have lh: "length (hexBytes (js ''1A9F'')) = 2"
    by (simp add: hexBytes_length js_def)
  have lw: "length (TextEncoder_encode (js ''MYKEY!'')) = 6"
    by (simp add: TextEncoder_encode_def utf8Bytes_def js_def utf8EncodeCodePoint_def
          scalarValue_def isLeadingSurrogate_def)
  note p = packing_exact[of "js ''1A9F''" no_mapping "js ''my key!''",
      unfolded words_sample_combined lh lw]
  have "(8 * 2 + 4) div 5 = (4::nat)" "(8 * 6 + 4) div 5 = (10::nat)"
    by simp_all
  with p h w show ?thesis
    by metis
qed

subsection \<open>The output of cleanTOTPSecret\<close>


lemma test_base32_normalized: "test_base32 s \<Longrightarrow> isNormalizedSecret s"
  by (auto simp: test_base32_def isNormalizedSecret_def canonical_then_pad_def)

lemma all_base32_canonical: "set s \<subseteq> set base32Chars \<Longrightarrow>
    canonical_then_pad s"
proof -
  assume "set s \<subseteq> set base32Chars"
  then have "\<forall>c\<in>set s. isBase32Char c" using base32Chars_set by auto
  then have "dropWhile isBase32Char s = []" by simp
  then show ?thesis unfolding canonical_then_pad_def by (simp only: list.pred_inject)
qed

lemma StringToCodePoints_Nil: "StringToCodePoints s = [] \<longleftrightarrow> s = []"
  by (induction s rule: StringToCodePoints.induct) auto

lemma utf8EncodeCodePoint_nonempty: "utf8EncodeCodePoint cp \<noteq> []"
  by (simp add: utf8EncodeCodePoint_def)

lemma utf8Bytes_Nil: "utf8Bytes s = [] \<longleftrightarrow> s = []"
  by (cases "StringToCodePoints s")
     (auto simp: utf8Bytes_def StringToCodePoints_Nil utf8EncodeCodePoint_nonempty)

lemma base32Pack_Nil: "base32Pack bytes = [] \<longleftrightarrow> bytes = []"
proof -
  have "length (base32Pack bytes) = 0 \<longleftrightarrow> length bytes = 0"
    unfolding base32Pack_length by (simp add: ceil5_zero)
  then show ?thesis by simp
qed

lemma hexToBase32_normalized:
  assumes "test_hex h" shows "isNormalizedSecret (hexToBase32 h)"
proof -
  have "hexToBase32 h = base32Pack (map ucast (hexBytes h))"
    by (simp add: hexToBase32_def hex_path_bytes[OF assms])
  moreover have "base32Pack (map ucast (hexBytes h)) \<noteq> []"
    using hexBytes_nonempty[OF assms] by (simp add: base32Pack_Nil)
  ultimately show ?thesis
    by (simp add: isNormalizedSecret_def all_base32_canonical base32Pack_set)
qed

lemma wordsToBase32_canonical: "canonical_then_pad (wordsToBase32 tab w)"
  using test_base32_normalized
  by (auto simp: wordsToBase32_def Let_def all_base32_canonical base32Pack_set
      isNormalizedSecret_def)

lemma wordsToBase32_Nil:
  "wordsToBase32 tab w = [] \<longleftrightarrow> toUpperCase tab (filter (\<lambda>c. \<not>
      isWhiteSpace c) w) = []"
  by (auto simp: wordsToBase32_def Let_def base32Pack_Nil TextEncoder_encode_def utf8Bytes_Nil)

text \<open>
  Claim C2, as amended. For every input that \<open>detectSecretFormat\<close> does not classify
  as \<open>mixed\<close>, the string returned by \<open>cleanTOTPSecret\<close> consists of
      characters of the
  alphabet A--Z, 2--7 followed only by pad symbols, and it is empty only for a
      \<open>words\<close>
  input whose upper-cased form without white space is empty.
\<close>

theorem normalizer_output_canonical:
  "detectSecretFormat tab s \<noteq> Mixed \<Longrightarrow>
     canonical_then_pad (cleanTOTPSecret tab s) \<and>
     (cleanTOTPSecret tab s = [] \<longleftrightarrow>
        detectSecretFormat tab s = Words \<and>
        toUpperCase tab (filter (\<lambda>c. \<not> isWhiteSpace c) s) = [])"
proof (cases "detectSecretFormat tab s")
  case Base32
  then have "isNormalizedSecret (cleanTOTPSecret tab s)"
    by (auto simp: cleanTOTPSecret_def detectSecretFormat_def Let_def test_base32_normalized
             split: if_splits)
  with Base32 show ?thesis by (simp add: isNormalizedSecret_def)
next
  case Hex
  then have "isNormalizedSecret (cleanTOTPSecret tab s)"
    by (auto simp: cleanTOTPSecret_def detectSecretFormat_def Let_def hexToBase32_normalized
             split: if_splits)
  with Hex show ?thesis by (simp add: isNormalizedSecret_def)
next
  case Words
  then show ?thesis
    by (simp add: cleanTOTPSecret_def wordsToBase32_canonical wordsToBase32_Nil)
next
  case Mixed
  moreover assume "detectSecretFormat tab s \<noteq> Mixed"
  ultimately show ?thesis by simp
qed

lemma clean_hex_sample: "cleanSeparators tab (js ''1a 9f'') = js ''1A9F''"
  by (simp add: string_eval)

lemma detect_hex_sample: "detectSecretFormat tab (js ''1a 9f'') = Hex"
  by (simp add: detectSecretFormat_def clean_hex_sample) (simp add: regex_eval js_def)

theorem normalizer_output_canonical_witness:
  "detectSecretFormat no_mapping (js ''1a 9f'') \<noteq> Mixed \<and>
   canonical_then_pad (cleanTOTPSecret no_mapping (js ''1a 9f'')) \<and>
   cleanTOTPSecret no_mapping (js ''1a 9f'') \<noteq> []"
proof -
  have h: "detectSecretFormat no_mapping (js ''1a 9f'') \<noteq> Mixed"
    by (simp add: detect_hex_sample)
  from normalizer_output_canonical[OF h] h show ?thesis
    by (simp add: detect_hex_sample)
qed

lemma clean_secret_hash: "cleanSeparators tab (js ''secret#1'') = js ''SECRET#1''"
  by (simp add: string_eval)

lemma detect_secret_hash: "detectSecretFormat tab (js ''secret#1'') = Mixed"
  by (simp add: detectSecretFormat_def clean_secret_hash) (simp add: regex_eval js_def)

text \<open>
  Claim C2 as stated fails: the input \<open>secret#1\<close> is classified
      \<open>mixed\<close> and comes back
  as \<open>SECRET#1\<close>, which contains \<open>#\<close> and \<open>1\<close>.
\<close>

theorem normalizer_output_counterexample:
  "\<not> isNormalizedSecret (cleanTOTPSecret no_mapping (js ''secret#1''))"
  by (simp add: cleanTOTPSecret_def detect_secret_hash clean_secret_hash)
     (simp add: regex_eval js_def isNormalizedSecret_def canonical_then_pad_def)

text \<open>
  Claim C3, as amended. For every input classified \<open>mixed\<close>,
      \<open>cleanTOTPSecret\<close> returns
  the cleaned form unchanged: the canonical and the hexadecimal attempt cannot succeed on
  such an input, and the last step is no packing.
\<close>

theorem mixed_returns_cleaned:
  "detectSecretFormat tab s = Mixed \<Longrightarrow>
     cleanTOTPSecret tab s = cleanSeparators tab s \<and>
     \<not> test_base32 (cleanSeparators tab s) \<and> \<not> test_hex (cleanSeparators tab s)"
  by (auto simp: cleanTOTPSecret_def detectSecretFormat_def Let_def split: if_splits)

lemma clean_hello: "cleanSeparators tab (js ''hello!'') = js ''HELLO!''"
  by (simp add: string_eval)

lemma detect_hello: "detectSecretFormat tab (js ''hello!'') = Mixed"
  by (simp add: detectSecretFormat_def clean_hello) (simp add: regex_eval js_def)

lemma pack_hello: "wordsToBase32 no_mapping (js ''hello!'') = js ''JBCUYTCPEE''"
  by (simp add: wordsToBase32_def string_eval regex_eval TextEncoder_encode_def utf8Bytes_def
        utf8EncodeCodePoint_def scalarValue_def base32Pack_def emit5.simps base32Chars_def)

theorem mixed_returns_cleaned_witness:
  "detectSecretFormat no_mapping (js ''hello!'') = Mixed \<and>
   cleanTOTPSecret no_mapping (js ''hello!'') = cleanSeparators no_mapping (js ''hello!'') \<and>
   \<not> test_base32 (cleanSeparators no_mapping (js ''hello!'')) \<and>
   \<not> test_hex (cleanSeparators no_mapping (js ''hello!''))"
proof -
  have h: "detectSecretFormat no_mapping (js ''hello!'') = Mixed"
    by (rule detect_hello)
  from mixed_returns_cleaned[OF h] h show ?thesis
    by simp
qed

text \<open>
  Claim C3 as stated fails: \<open>hello!\<close> is classified \<open>mixed\<close> and comes
      back as
  \<open>HELLO!\<close>, while the raw-text packing of the \<open>words\<close> path gives
      \<open>JBCUYTCPEE\<close>.
\<close>

theorem mixed_fallback_counterexample:
  "detectSecretFormat no_mapping (js ''hello!'') = Mixed \<and>
   cleanTOTPSecret no_mapping (js ''hello!'') = js ''HELLO!'' \<and>
   wordsToBase32 no_mapping (js ''hello!'') = js ''JBCUYTCPEE''"
  by (simp add: detect_hello cleanTOTPSecret_def clean_hello pack_hello)
     (simp add: regex_eval js_def)

lemma split_on_nonempty: "split_on sep s \<noteq> []"
  by (induction s) (auto split: list.splits)

lemma split_on_space: "sep \<in> set s \<Longrightarrow> length (split_on sep s) > 1"
  using split_on_nonempty[of sep] by (induction s) (auto split: list.splits)

lemma detectSecretFormat_order:
  "detectSecretFormat tab s =
     (if test_base32 (cleanSeparators tab s) then Base32
      else if test_hex (cleanSeparators tab s) then Hex
      else if 32 \<in> set s then Words else Mixed)"
  using split_on_space[of 32 s] by (auto simp: detectSecretFormat_def Let_def)

text \<open>
  Claim C5 at the input \<open>a! \<close> (one token and a trailing space): the code answers
  \<open>words\<close>, although the input holds a single non-empty token.
\<close>

theorem words_with_one_token:
  "detectSecretFormat no_mapping (js ''a! '') = Words \<and>
   filter (\<lambda>t. t \<noteq> []) (split_on 32 (js ''a! '')) = [js ''a!'']"
  by (simp add: detectSecretFormat_def string_eval regex_eval)

lemma clean_dashes: "cleanSeparators tab (js ''----'') = []"
  by (simp add: string_eval)

text \<open>
  Claim C6 as stated fails: the cleaned form of \<open>----\<close> has no characters, yet the
  validation accepts the input and \<open>cleanTOTPSecret\<close> returns the empty string.
\<close>

theorem empty_cleaned_counterexample:
  "cleanSeparators no_mapping (js ''----'') = [] \<and>
   isValid (validateTOTPSecret no_mapping (js ''----'')) \<and>
   cleanTOTPSecret no_mapping (js ''----'') = []"
  by (simp add: clean_dashes cleanTOTPSecret_def detectSecretFormat_def validateTOTPSecret_def
        regex_eval trim_def)
     (simp add: js_def isWhiteSpace_def)

text \<open>
  Claim C6, as amended. \<open>validateTOTPSecret\<close> rejects an input exactly when its
      trimmed
  form has fewer than four code units, with \<open>EMPTY_INPUT\<close> when the trimmed form
      is empty
  and with the length message otherwise; \<open>cleanTOTPSecret\<close> has no failure and returns
  the empty string on the empty input.
\<close>

theorem validation_gate:
  "(isValid (validateTOTPSecret tab s) \<longleftrightarrow> 4 \<le> length (trim s)) \<and>
   errorMessage (validateTOTPSecret tab s) =
     (if trim s = [] then Some EMPTY_INPUT
      else if length (trim s) < 4 then Some SECRET_TOO_SHORT else None) \<and>
   cleanTOTPSecret tab [] = []"
proof -
  have "trim [] = []" by (simp add: trim_def)
  moreover have "cleanTOTPSecret tab [] = []"
    by (simp add: cleanTOTPSecret_def detectSecretFormat_def string_eval regex_eval)
  ultimately show ?thesis
    by (auto simp: validateTOTPSecret_def)
qed

section \<open>Properties of the provisioning URI parser\<close>

lemma find_filter_hd:
  "List.find P xs = (case filter P xs of [] \<Rightarrow> None | t # _ \<Rightarrow> Some t)"
  by (induction xs) auto

lemma label_first_segment:
  "orUndefined (case filter (\<lambda>t. t \<noteq> []) xs of [] \<Rightarrow> None | t # _
      \<Rightarrow> Some t) =
   List.find (\<lambda>t. t \<noteq> []) xs"
  by (induction xs) (auto simp: orUndefined_def)

text \<open>
  Claim C9, as amended. \<open>parseOTPAuthURI\<close> gives \<open>null\<close> exactly when
      the string is
  no well-formed URI, or its scheme is not \<open>otpauth\<close>, or its host is not
      \<open>totp\<close>; a
  missing \<open>secret\<close> parameter is no failure, the result then has no
      \<open>secret\<close>. On
  success the fields are the query parameters of these names, an empty value counting as
  absent, and the label is the first non-empty segment of the path.
\<close>

theorem parseOTPAuthURI_result:
  "(parseOTPAuthURI pf uri = None \<longleftrightarrow>
      (case newURL pf uri of None \<Rightarrow> True
       | Some url \<Rightarrow> protocol url \<noteq> js ''otpauth:'' \<or> hostname url
           \<noteq> js ''totp'')) \<and>
   (\<forall>r url. parseOTPAuthURI pf uri = Some r \<and> newURL pf uri = Some url
       \<longrightarrow>
      secret r = orUndefined (map_of (newURLSearchParams pf (search url)) (js ''secret'')) \<and>
      issuer r = orUndefined (map_of (newURLSearchParams pf (search url)) (js ''issuer'')) \<and>
      algorithm r = orUndefined (map_of (newURLSearchParams pf (search url)) (js
          ''algorithm'')) \<and>
      digits r = map_option (parseInt pf)
        (orUndefined (map_of (newURLSearchParams pf (search url)) (js ''digits''))) \<and>
      period r = map_option (parseInt pf)
        (orUndefined (map_of (newURLSearchParams pf (search url)) (js ''period''))) \<and>
      label r = firstNonEmptySegment (pathname url))"
  by (auto simp: parseOTPAuthURI_def Let_def label_first_segment firstNonEmptySegment_def
           split: option.splits)

lemma sample_uri_parse:
  "parseOTPAuthURI sample_url_platform (js ''otpauth://totp/Example?issuer=Example'') =
     Some \<lparr>secret = None, issuer = Some (js ''Example''), label = Some (js ''Example''),
           algorithm = None, digits = None, period = None\<rparr>"
  by (simp add: parseOTPAuthURI_def sample_url_platform_def orUndefined_def js_def)

text \<open>
  Claim C9 as stated fails: a provisioning URI without \<open>secret\<close> parameter is parsed
  with success.
\<close>

theorem missing_secret_counterexample:
  "map_of (newURLSearchParams sample_url_platform (js ''?issuer=Example'')) (js ''secret'') =
      None \<and>
   parseOTPAuthURI sample_url_platform (js ''otpauth://totp/Example?issuer=Example'') =
     Some \<lparr>secret = None, issuer = Some (js ''Example''), label = Some (js ''Example''),
           algorithm = None, digits = None, period = None\<rparr>"
  by (simp add: sample_uri_parse) (simp add: sample_url_platform_def js_def)

theorem parseOTPAuthURI_result_witness:
  "parseOTPAuthURI sample_url_platform (js ''otpauth://totp/Example?issuer=Example'') =
     Some \<lparr>secret = None, issuer = Some (js ''Example''), label = Some (js ''Example''),
           algorithm = None, digits = None, period = None\<rparr> \<and>
   newURL sample_url_platform (js ''otpauth://totp/Example?issuer=Example'') =
     Some \<lparr>protocol = js ''otpauth:'', hostname = js ''totp'',
           pathname = js ''/Example'', search = js ''?issuer=Example''\<rparr> \<and>
   firstNonEmptySegment (js ''/Example'') = Some (js ''Example'') \<and>
   orUndefined (map_of (newURLSearchParams sample_url_platform (js ''?issuer=Example''))
     (js ''secret'')) = None"
proof -
  let ?u = "js ''otpauth://totp/Example?issuer=Example''"
  let ?url = "\<lparr>protocol = js ''otpauth:'', hostname = js ''totp'',
            pathname = js ''/Example'', search = js ''?issuer=Example''\<rparr>"
  let ?r = "\<lparr>secret = None, issuer = Some (js ''Example''), label = Some (js ''Example''),
           algorithm = None, digits = None, period = None :: nat option\<rparr>"
  have u: "newURL sample_url_platform ?u = Some ?url"
    by (simp add: sample_url_platform_def)
  have p: "parseOTPAuthURI sample_url_platform ?u = Some ?r"
    by (rule sample_uri_parse)
  from parseOTPAuthURI_result[of sample_url_platform ?u, THEN conjunct2, rule_format, of ?r ?url]
    u p
  have "secret ?r = orUndefined (map_of (newURLSearchParams sample_url_platform (search ?url))
          (js ''secret''))"
    and "label ?r = firstNonEmptySegment (pathname ?url)"
    by blast+
  with u p show ?thesis
    by simp
qed

section \<open>Properties of the envelope codec\<close>

lemmas codec_consts = PASSWORD_MIN_LENGTH_def SALT_LENGTH_def IV_LENGTH_def

subsection \<open>btoa and atob\<close>

lemma base64Chars_map: "base64Chars = map base64CharOf [0..<64]"
  by (simp add: base64Chars_def js_def base64CharOf_def upt_conv_Cons)

lemma base64Chars_nth: "v < 64 \<Longrightarrow> base64Chars ! v = base64CharOf v"
  by (simp add: base64Chars_map del: upt_Suc)

lemma base64CharOf_props:
  assumes "v < 64"
  shows "isBase64Char (base64CharOf v)" "\<not> isAsciiWhitespace (base64CharOf v)"
    "base64CharOf v \<noteq> 61" "base64Value (base64CharOf v) = v"
  using assms
  by (auto simp: base64CharOf_def isBase64Char_def isAsciiWhitespace_def base64Value_def)

lemma sextets_bound: "list_all (\<lambda>c. c < 256) s \<Longrightarrow> list_all (\<lambda>v.
    v < 64) (sextets s)"
  by (induction s rule: sextets.induct) auto

lemma divmod_pack:
  fixes q r m :: nat
  assumes "r < m"
  shows "(q * m + r) div m = q" "(q * m + r) mod m = r"
  using assms by simp_all

lemma byte_parts:
  fixes b :: nat
  assumes "b < 256"
  shows "b div 16 < 16" "b div 64 < 4" "b div 4 < 64"
  using assms by simp_all

lemma octets_sextets: "list_all (\<lambda>c. c < 256) s \<Longrightarrow> octets (sextets s) = s"
proof (induction s rule: sextets.induct)
  case 1
  then show ?case by simp
next
  case (2 a)
  then show ?case by simp
next
  case (3 a b)
  then have "b div 16 < 16" by (simp add: byte_parts)
  then show ?case
    by (simp add: divmod_pack)
next
  case (4 a b c r)
  then have "b div 16 < 16" "c div 64 < 4" by (simp_all add: byte_parts)
  with 4 show ?case
    by (simp add: divmod_pack)
qed

lemma sextets_length: "length (sextets s) = (4 * length s + 2) div 3"
  by (induction s rule: sextets.induct) auto


lemma stripPadding_pads:
  assumes "cs = [] \<or> last cs \<noteq> 61" and "k \<le> 2"
  shows "stripPadding (cs @ replicate k 61) = cs"
proof -
  from assms(2) consider "k = 0" | "k = 1" | "k = 2" by linarith
  then show ?thesis
  proof cases
    case 1
    with assms(1) show ?thesis by (auto simp: stripPadding_def)
  next
    case 2
    with assms(1) show ?thesis by (auto simp: stripPadding_def)
  next
    case 3
    then have "replicate k (61::nat) = [61, 61]" by (simp add: numeral_2_eq_2)
    then show ?thesis by (simp add: stripPadding_def butlast_append)
  qed
qed

lemma base64_lengths:
  fixes n :: nat
  shows "((4 * n + 2) div 3 + (3 - n mod 3) mod 3) mod 4 = 0"
    and "(4 * n + 2) div 3 mod 4 \<noteq> 1"
    and "(3 - n mod 3) mod 3 \<le> 2"
proof -
  define q r where "q = n div 3" and "r = n mod 3"
  then have n: "n = 3 * q + r" and r: "r < 3" by simp_all
  from r consider "r = 0" | "r = 1" | "r = 2" by linarith
  then have "(4 * n + 2) div 3 = 4 * q + (if r = 0 then 0 else r + 1) \<and> (3 - r) mod 3 =
      (if r = 0 then 0 else 3 - r)"
    by cases (simp_all add: n)
  moreover have "n mod 3 = r" by (simp add: r_def)
  ultimately show "((4 * n + 2) div 3 + (3 - n mod 3) mod 3) mod 4 = 0"
    and "(4 * n + 2) div 3 mod 4 \<noteq> 1"
    and "(3 - n mod 3) mod 3 \<le> 2"
    using r by (auto simp: mod_Suc)
qed

lemma atob_btoa:
  assumes "list_all (\<lambda>c. c < 256) s"
  shows "atob (the (btoa s)) = Some s" and "btoa s \<noteq> None"
proof -
  let ?cs = "map base64CharOf (sextets s)"
  let ?k = "(3 - length s mod 3) mod 3"
  have v: "list_all (\<lambda>v. v < 64) (sextets s)"
    by (rule sextets_bound[OF assms])
  then have cs: "map (\<lambda>v. base64Chars ! v) (sextets s) = ?cs"
    by (simp add: list_all_iff base64Chars_nth)
  with assms have b: "btoa s = Some (?cs @ replicate ?k 61)"
    by (simp add: btoa_def)
  then show "btoa s \<noteq> None" by simp
  from v have p: "list_all isBase64Char ?cs" "list_all (\<lambda>c. \<not> isAsciiWhitespace
      c) ?cs"
    "list_all (\<lambda>c. c \<noteq> 61) ?cs" "map base64Value ?cs = sextets s"
    by (simp_all add: list_all_iff base64CharOf_props map_idI)
  have ws: "filter (\<lambda>c. \<not> isAsciiWhitespace c) (?cs @ replicate ?k 61) = ?cs @
      replicate ?k 61"
    using p(2) by (simp add: list_all_iff isAsciiWhitespace_def)
  have len: "length (?cs @ replicate ?k 61) mod 4 = 0" "length ?cs mod 4 \<noteq> 1"
    using base64_lengths[of "length s"] by (simp_all add: sextets_length)
  have "?cs = [] \<or> last ?cs \<noteq> 61"
    using p(3) last_in_set[of ?cs] by (auto simp: list_all_iff)
  then have sp: "stripPadding (?cs @ replicate ?k 61) = ?cs"
    by (rule stripPadding_pads) (rule base64_lengths)
  have "atob (?cs @ replicate ?k 61) = Some (octets (map base64Value ?cs))"
    unfolding atob_def Let_def ws using len p(1) by (simp only: sp if_True) simp
  then show "atob (the (btoa s)) = Some s"
    by (simp only: b option.sel p(4) octets_sextets[OF assms])
qed

subsection \<open>TextEncoder and TextDecoder\<close>

lemma lead_mods:
  fixes a :: nat
  shows "a < 32 \<Longrightarrow> (192 + a) mod 32 = a"
    and "a < 16 \<Longrightarrow> (224 + a) mod 16 = a"
    and "a < 8 \<Longrightarrow> (240 + a) mod 8 = a"
    and "a < 64 \<Longrightarrow> (128 + a) mod 64 = a"
proof -
  have m: "(q * m + r) mod m = r" if "r < m" for q m r :: nat
    using that by simp
  show "a < 32 \<Longrightarrow> (192 + a) mod 32 = a" using m[of a 32 6] by simp
  show "a < 16 \<Longrightarrow> (224 + a) mod 16 = a" using m[of a 16 14] by simp
  show "a < 8 \<Longrightarrow> (240 + a) mod 8 = a" using m[of a 8 30] by simp
  show "a < 64 \<Longrightarrow> (128 + a) mod 64 = a" using m[of a 64 2] by simp
qed

lemma dec1:
  "cp < 128 \<Longrightarrow> utf8Decoder 0 0 0 128 191 (cp # rest) = cp # utf8Decoder 0 0 0
      128 191 rest"
  by (simp add: utf8Decoder.simps)

lemma dec2:
  assumes "2 \<le> a" "a < 32" "b < 64"
  shows "utf8Decoder 0 0 0 128 191 ((192 + a) # (128 + b) # rest) =
           (a * 64 + b) # utf8Decoder 0 0 0 128 191 rest"
  using assms by (simp add: utf8Decoder.simps lead_mods)

lemma dec3:
  assumes "a < 16" "b < 64" "c < 64" "a = 0 \<longrightarrow> 32 \<le> b" "a = 13
      \<longrightarrow> b < 32"
  shows "utf8Decoder 0 0 0 128 191 ((224 + a) # (128 + b) # (128 + c) # rest) =
           ((a * 64 + b) * 64 + c) # utf8Decoder 0 0 0 128 191 rest"
  using assms by (simp add: utf8Decoder.simps lead_mods) linarith

lemma dec4:
  assumes "a < 5" "b < 64" "c < 64" "d < 64" "a = 0 \<longrightarrow> 16 \<le> b" "a = 4
      \<longrightarrow> b < 16"
  shows "utf8Decoder 0 0 0 128 191 ((240 + a) # (128 + b) # (128 + c) # (128 + d) # rest) =
           (((a * 64 + b) * 64 + c) * 64 + d) # utf8Decoder 0 0 0 128 191 rest"
  using assms by (simp add: utf8Decoder.simps lead_mods) linarith


lemma utf8_digits:
  fixes cp :: nat
  defines "c \<equiv> cp mod 64" and "x \<equiv> cp div 64"
  defines "b \<equiv> x mod 64" and "y \<equiv> x div 64"
  defines "e \<equiv> y mod 64" and "z \<equiv> y div 64"
  shows "cp = 64 * x + c" "c < 64" "x = 64 * y + b" "b < 64" "y = 64 * z + e" "e < 64"
    "cp div 4096 = y" "cp div 262144 = z"
proof -
  show "cp = 64 * x + c" "c < 64" "x = 64 * y + b" "b < 64" "y = 64 * z + e" "e < 64"
    by (simp_all add: c_def x_def b_def y_def e_def z_def)
  have "cp div 4096 = cp div (64 * 64)" by simp
  also have "\<dots> = y" unfolding y_def x_def by (rule div_mult2_eq)
  finally show y: "cp div 4096 = y" .
  have "cp div 262144 = cp div (4096 * 64)" by simp
  also have "\<dots> = cp div 4096 div 64" by (rule div_mult2_eq)
  finally show "cp div 262144 = z" by (simp add: y z_def)
qed

lemma dec_enc:
  assumes "cp < 1114112" and "\<not> (55296 \<le> cp \<and> cp \<le> 57343)"
  shows "utf8Decoder 0 0 0 128 191 (utf8EncodeCodePoint cp @ rest) =
           cp # utf8Decoder 0 0 0 128 191 rest"
    and "list_all (\<lambda>b. b < 256) (utf8EncodeCodePoint cp)"
proof -
  define c where "c = cp mod 64"
  define x where "x = cp div 64"
  define b where "b = x mod 64"
  define y where "y = x div 64"
  define e where "e = y mod 64"
  define z where "z = y div 64"
  note d = utf8_digits[of cp, folded c_def x_def b_def y_def e_def z_def]
  have enc: "utf8EncodeCodePoint cp =
     (if cp < 128 then [cp]
      else if cp < 2048 then [192 + x, 128 + c]
      else if cp < 65536 then [224 + y, 128 + b, 128 + c]
      else [240 + z mod 8, 128 + e, 128 + b, 128 + c])"
    by (simp add: utf8EncodeCodePoint_def d(7,8) c_def x_def b_def y_def e_def)
  consider "cp < 128" | "128 \<le> cp" "cp < 2048" | "2048 \<le> cp" "cp < 65536" | "65536
      \<le> cp"
    by linarith
  then have "utf8Decoder 0 0 0 128 191 (utf8EncodeCodePoint cp @ rest) =
           cp # utf8Decoder 0 0 0 128 191 rest \<and> list_all (\<lambda>b. b < 256)
               (utf8EncodeCodePoint cp)"
  proof cases
    case 1
    then show ?thesis by (simp add: enc dec1)
  next
    case 2
    with d have r: "2 \<le> x" "x < 32" "c < 64" "x * 64 + c = cp" by linarith+
    from 2 have "utf8EncodeCodePoint cp = [192 + x, 128 + c]" by (simp add: enc)
    with dec2[OF r(1-3), of rest] r show ?thesis by simp
  next
    case 3
    with d assms(2) have r: "y < 16" "b < 64" "c < 64" "y = 0 \<longrightarrow> 32 \<le> b"
      "y = 13 \<longrightarrow> b < 32" by linarith+
    have "(y * 64 + b) * 64 + c = 64 * (64 * y + b) + c" by simp
    also have "\<dots> = cp" by (simp only: d(3)[symmetric] d(1)[symmetric])
    finally have r6: "(y * 64 + b) * 64 + c = cp" .
    from 3 have "utf8EncodeCodePoint cp = [224 + y, 128 + b, 128 + c]" by (simp add: enc)
    with dec3[OF r(1-5), of rest] r r6 show ?thesis by simp
  next
    case 4
    with d assms(1) have r: "z < 5" "e < 64" "b < 64" "c < 64" "z = 0 \<longrightarrow> 16
        \<le> e"
      "z = 4 \<longrightarrow> e < 16" by linarith+
    have "((z * 64 + e) * 64 + b) * 64 + c = 64 * (64 * (64 * z + e) + b) + c" by simp
    also have "\<dots> = cp" by (simp only: d(5)[symmetric] d(3)[symmetric] d(1)[symmetric])
    finally have r7: "((z * 64 + e) * 64 + b) * 64 + c = cp" .
    from r(1) have "z mod 8 = z" by simp
    with 4 have "utf8EncodeCodePoint cp = [240 + z, 128 + e, 128 + b, 128 + c]" by (simp add: enc)
    with dec4[OF r(1-6), of rest] r r7 show ?thesis by simp
  qed
  then show "utf8Decoder 0 0 0 128 191 (utf8EncodeCodePoint cp @ rest) =
           cp # utf8Decoder 0 0 0 128 191 rest"
    and "list_all (\<lambda>b. b < 256) (utf8EncodeCodePoint cp)" by simp_all
qed

lemma utf8_decode_encode:
  "list_all isScalar cps \<Longrightarrow>
     utf8Decoder 0 0 0 128 191 (concat (map utf8EncodeCodePoint cps)) = cps \<and>
     list_all (\<lambda>b. b < 256) (concat (map utf8EncodeCodePoint cps))"
proof (induction cps)
  case Nil
  then show ?case by (simp add: utf8Decoder.simps)
next
  case (Cons cp cps)
  then have "cp < 1114112" "\<not> (55296 \<le> cp \<and> cp \<le> 57343)" by (simp_all add:
      isScalar_def)
  from dec_enc[OF this] Cons show ?case by simp
qed

lemma codepoints_bound:
  "list_all (\<lambda>c. c < 65536) s \<Longrightarrow> list_all (\<lambda>cp. cp < 1114112)
      (StringToCodePoints s)"
  by (induction s rule: StringToCodePoints.induct)
     (auto simp: isLeadingSurrogate_def isTrailingSurrogate_def)

lemma surrogate_pair_back:
  assumes "isLeadingSurrogate c" "isTrailingSurrogate d"
  shows "UTF16EncodeCodePoint (65536 + (c - 55296) * 1024 + (d - 56320)) = [c, d]"
proof -
  from assms have r: "d - 56320 < 1024" "55296 \<le> c" "56320 \<le> d"
    by (auto simp: isLeadingSurrogate_def isTrailingSurrogate_def)
  have "(65536 + (c - 55296) * 1024 + (d - 56320)) - 65536 = (c - 55296) * 1024 + (d - 56320)"
    by simp
  with r divmod_pack[OF r(1), of "c - 55296"] show ?thesis
    by (simp add: UTF16EncodeCodePoint_def)
qed

lemma codepoints_back:
  "list_all (\<lambda>c. c < 65536) s \<Longrightarrow> CodePointsToString (StringToCodePoints
      s) = s"
proof (induction s rule: StringToCodePoints.induct)
  case 1
  then show ?case by (simp add: CodePointsToString_def)
next
  case (2 c)
  then show ?case by (simp add: CodePointsToString_def UTF16EncodeCodePoint_def)
next
  case (3 c d cs)
  show ?case
  proof (cases "isLeadingSurrogate c \<and> isTrailingSurrogate d")
    case True
    with 3 show ?thesis
      by (simp add: CodePointsToString_def surrogate_pair_back)
  next
    case False
    then have "StringToCodePoints (c # d # cs) = c # StringToCodePoints (d # cs)"
      by auto
    with 3 False show ?thesis
      by (simp add: CodePointsToString_def UTF16EncodeCodePoint_def)
  qed
qed

lemma dropBOM_codepoints:
  "take 1 s \<noteq> [65279] \<Longrightarrow> dropBOM (StringToCodePoints s) =
      StringToCodePoints s"
  by (cases s rule: StringToCodePoints.cases) (auto simp: dropBOM_def)

lemma wellFormed_scalars: "wellFormed s \<Longrightarrow> list_all isScalar
    (StringToCodePoints s)"
proof -
  assume w: "wellFormed s"
  then have "list_all (\<lambda>cp. cp < 1114112) (StringToCodePoints s)"
    by (simp add: wellFormed_def codepoints_bound)
  with w show ?thesis
    by (auto simp: wellFormed_def isScalar_def list_all_iff)
qed

lemma utf8Bytes_scalars:
  "list_all isScalar (StringToCodePoints s) \<Longrightarrow>
     utf8Bytes s = concat (map utf8EncodeCodePoint (StringToCodePoints s))"
proof -
  assume "list_all isScalar (StringToCodePoints s)"
  then have "map (\<lambda>cp. utf8EncodeCodePoint (scalarValue cp)) (StringToCodePoints s) =
      map utf8EncodeCodePoint (StringToCodePoints s)"
    by (auto simp: list_all_iff isScalar_def scalarValue_def)
  then show ?thesis unfolding utf8Bytes_def by (rule arg_cong)
qed

lemma unat_of_nat_bytes:
  "list_all (\<lambda>b. b < 256) bs \<Longrightarrow> map unat (map of_nat bs :: 8 word list)
      = bs"
  by (induction bs) (simp_all add: unsigned_of_nat take_bit_nat_eq_self)

lemma text_roundtrip:
  assumes "wellFormed s" and "take 1 s \<noteq> [65279]"
  shows "TextDecoder_decode (TextEncoder_encode s) = s"
proof -
  let ?cps = "StringToCodePoints s"
  from assms(1) have sc: "list_all isScalar ?cps" by (rule wellFormed_scalars)
  note u = utf8_decode_encode[OF sc]
  have b: "utf8Bytes s = concat (map utf8EncodeCodePoint ?cps)"
    by (rule utf8Bytes_scalars[OF sc])
  with u have "map unat (TextEncoder_encode s) = concat (map utf8EncodeCodePoint ?cps)"
    by (simp add: TextEncoder_encode_def unat_of_nat_bytes del: map_map)
  with u have "utf8Decoder 0 0 0 128 191 (map unat (TextEncoder_encode s)) = ?cps"
    by simp
  then have "TextDecoder_decode (TextEncoder_encode s) = CodePointsToString (dropBOM ?cps)"
    by (simp add: TextDecoder_decode_def)
  also have "\<dots> = CodePointsToString ?cps"
    by (simp add: dropBOM_codepoints[OF assms(2)])
  also have "\<dots> = s"
    using assms(1) by (simp add: codepoints_back wellFormed_def)
  finally show ?thesis .
qed

lemma bom_is_lost: "TextDecoder_decode (TextEncoder_encode [65279, 97]) = [97]"
  by (simp add: TextDecoder_decode_def TextEncoder_encode_def utf8Bytes_def scalarValue_def
        utf8EncodeCodePoint_def isLeadingSurrogate_def utf8Decoder.simps dropBOM_def
        CodePointsToString_def UTF16EncodeCodePoint_def)

subsection \<open>The round trip\<close>

lemma btoa_nonempty:
  assumes "btoa s = Some b" "s \<noteq> []"
  shows "b \<noteq> []"
proof -
  from assms(2) have "sextets s \<noteq> []"
    by (cases s rule: sextets.cases) simp_all
  with assms(1) show ?thesis
    by (auto simp: btoa_def split: if_splits)
qed

lemma unat_bytes: "list_all (\<lambda>c. c < 256) (map unat (bs :: 8 word list))"
proof -
  have "unat b < 256" for b :: "8 word"
    using unsigned_less[of b, where 'a = nat] by simp
  then show ?thesis by (simp add: list_all_iff)
qed

lemma trim_Nil: "trim [] = []"
  by (simp add: trim_def)

text \<open>
  Claim C1, as amended. With a provider that derives keys, encrypts with a tag of 16
  bytes and decrypts what it encrypted, for every plaintext that is well-formed, not made
  of white space only, not starting with U+FEFF, and short enough for its envelope (the
  UTF-8 bytes of the plaintext and 44 more) to stay within the argument limit of the
  engine, and every password of at least 8 code units, \<open>encryptPayload\<close> succeeds and
  \<open>decryptPayload\<close> on its envelope with the same password returns the plaintext,
  whatever the random bytes.
\<close>

theorem encrypt_decrypt_roundtrip:
  assumes "provider_correct wc"
    and "trim p \<noteq> []" and "wellFormed p" and "take 1 p \<noteq> [65279]"
    and "8 \<le> length w"
    and "length (TextEncoder_encode p) + 44 \<le> maxArguments"
  shows "success (encryptPayload wc maxArguments random p w) \<and>
         decryptPayload wc (encryptedData (encryptPayload wc maxArguments random p w)) w =
           (\<lparr>success = True, error = None, plaintext = p\<rparr>, [DeriveKey, Decrypt])"
proof -
  let ?salt = "map random [0..<16]"
  let ?iv = "map (\<lambda>i. random (i + 16)) [0..<12]"
  let ?m = "TextEncoder_encode p"
  from assms(2) have p: "p \<noteq> []" using trim_Nil by auto
  from assms(5) have w: "w \<noteq> []" by auto
  from p w assms(2,5) have valid: "isValid (validateEncryptionInput p w)"
    by (simp add: validateEncryptionInput_def codec_consts)
  from assms(1) have "pbkdf2 wc (TextEncoder_encode w) ?salt \<noteq> None"
    unfolding provider_correct_def by blast
  then obtain key where key: "deriveKey wc w ?salt = Some key"
    unfolding deriveKey_def by blast
  from assms(1) obtain c where c: "aes_gcm_encrypt wc key ?iv ?m = Some c"
    "length c = length ?m + 16" "aes_gcm_decrypt wc key ?iv c = Some ?m"
    unfolding provider_correct_def by blast
  let ?combined = "?salt @ ?iv @ c"
  have bytes: "list_all (\<lambda>c. c < 256) (map unat ?combined)"
    by (rule unat_bytes)
  from atob_btoa(2)[OF bytes] obtain b64 where b64: "btoa (map unat ?combined) = Some b64"
    by auto
  with atob_btoa(1)[OF bytes] have decoded: "atob b64 = Some (map unat ?combined)"
    by simp
  have ne: "b64 \<noteq> []"
    by (rule btoa_nonempty[OF b64]) simp
  have spread: "fromCharCodeSpread maxArguments ?combined = Some (map unat ?combined)"
    using c(2) assms(6) by (simp add: fromCharCodeSpread_def)
  have enc: "encryptPayload wc maxArguments random p w =
      \<lparr>success = True, error = None, encryptedData = b64\<rparr>"
    using valid key c(1) spread b64
    by (simp add: encryptPayload_def generateRandomBytes_def codec_consts)
  have buf: "(map of_nat (map unat ?combined) :: 8 word list) = ?combined"
    by (simp add: map_idI)
  have parts: "take 16 ?combined = ?salt" "take 12 (drop 16 ?combined) = ?iv"
    "drop 28 ?combined = c" "\<not> length ?combined < 44"
    using c(2) by simp_all
  have dec: "decryptPayload wc b64 w =
      (\<lparr>success = True, error = None, plaintext = TextDecoder_decode ?m\<rparr>,
       [DeriveKey, Decrypt])"
    using ne w assms(5) decoded key c(3) parts
    by (simp add: decryptPayload_def codec_consts buf del: map_map map_append)
  show ?thesis
    by (simp add: enc dec text_roundtrip[OF assms(3,4)])
qed

lemma toy_crypto_correct: "provider_correct toy_crypto"
proof -
  have "length (toy_tag k iv m) = 16" for k iv m
    by (simp add: toy_tag_def Let_def)
  then show ?thesis
    by (simp add: provider_correct_def toy_crypto_def)
qed

theorem encrypt_decrypt_roundtrip_witness:
  "provider_correct toy_crypto \<and> trim (js ''attack at dawn'') \<noteq> [] \<and>
   wellFormed (js ''attack at dawn'') \<and>
   8 \<le> length (js ''correct horse battery staple'') \<and>
   length (TextEncoder_encode (js ''attack at dawn'')) + 44 \<le> sample_limit \<and>
   success (encryptPayload toy_crypto sample_limit zero_random (js ''attack at dawn'')
     (js ''correct horse battery staple'')) \<and>
   decryptPayload toy_crypto
     (encryptedData (encryptPayload toy_crypto sample_limit zero_random
        (js ''attack at dawn'') (js ''correct horse battery staple'')))
     (js ''correct horse battery staple'') =
     (\<lparr>success = True, error = None, plaintext = js ''attack at dawn''\<rparr>,
      [DeriveKey, Decrypt])"
proof -
  have t: "trim (js ''attack at dawn'') \<noteq> []"
    by (simp add: trim_def js_def isWhiteSpace_def)
  have f: "wellFormed (js ''attack at dawn'')"
    by (simp add: wellFormed_def js_def isLeadingSurrogate_def)
  have b: "take 1 (js ''attack at dawn'') \<noteq> [65279]"
    by (simp add: js_def)
  have l: "8 \<le> length (js ''correct horse battery staple'')"
    by (simp add: js_def)
  have n: "length (TextEncoder_encode (js ''attack at dawn'')) + 44 \<le> sample_limit"
    by (simp add: TextEncoder_encode_def utf8Bytes_def js_def utf8EncodeCodePoint_def
          scalarValue_def isLeadingSurrogate_def sample_limit_def)
  from encrypt_decrypt_roundtrip[OF toy_crypto_correct t f b l n, of zero_random]
    toy_crypto_correct t f l n
  show ?thesis by blast
qed

text \<open>
  Beyond the argument limit the call \<open>String.fromCharCode(...combinedBuffer)\<close> throws,
  and \<open>encryptPayload\<close> answers with its failure: a plaintext that long has no envelope.
\<close>

lemma oversized_plaintext_fails:
  assumes "provider_correct wc" and "trim p \<noteq> []" and "8 \<le> length w"
    and "maxArguments < length (TextEncoder_encode p) + 44"
  shows "encryptPayload wc maxArguments random p w =
           \<lparr>success = False, error = Some ENCRYPTION_FAILED, encryptedData = []\<rparr>"
proof -
  let ?salt = "map random [0..<16]"
  let ?iv = "map (\<lambda>i. random (i + 16)) [0..<12]"
  let ?m = "TextEncoder_encode p"
  from assms(2) have p: "p \<noteq> []" using trim_Nil by auto
  from assms(3) have w: "w \<noteq> []" by auto
  from p w assms(2,3) have valid: "isValid (validateEncryptionInput p w)"
    by (simp add: validateEncryptionInput_def codec_consts)
  from assms(1) have "pbkdf2 wc (TextEncoder_encode w) ?salt \<noteq> None"
    unfolding provider_correct_def by blast
  then obtain key where key: "deriveKey wc w ?salt = Some key"
    unfolding deriveKey_def by blast
  from assms(1) obtain c where c: "aes_gcm_encrypt wc key ?iv ?m = Some c"
    "length c = length ?m + 16"
    unfolding provider_correct_def by blast
  have "fromCharCodeSpread maxArguments (?salt @ ?iv @ c) = None"
    using c(2) assms(4) by (simp add: fromCharCodeSpread_def)
  with valid key c(1) show ?thesis
    by (simp add: encryptPayload_def generateRandomBytes_def codec_consts)
qed

text \<open>
  Claim C1 as stated fails on a plaintext of one space: it is not empty, and
  \<open>validateEncryptionInput\<close> refuses it, so that there is no envelope to decrypt.
\<close>

theorem blank_plaintext_counterexample:
  "js '' '' \<noteq> [] \<and> wellFormed (js '' '') \<and> 8 \<le> length (js ''password1'')
      \<and>
   encryptPayload toy_crypto sample_limit zero_random (js '' '') (js ''password1'') =
     \<lparr>success = False, error = Some ENTER_PLAINTEXT, encryptedData = []\<rparr> \<and>
   fst (decryptPayload toy_crypto [] (js ''password1'')) =
     \<lparr>success = False, error = Some ENTER_DATA_AND_PASSWORD, plaintext = []\<rparr>"
  by (simp add: js_def wellFormed_def encryptPayload_def validateEncryptionInput_def trim_def
        isWhiteSpace_def decryptPayload_def)

subsection \<open>Failures of decryptPayload\<close>

text \<open>
  Claim C7, as amended. For every non-empty envelope string that is valid Base64 and
  decodes to fewer than 44 bytes, and every password of at least 8 code units,
  \<open>decryptPayload\<close> fails with \<open>INVALID_ENCRYPTED_DATA\<close> and calls the
      provider neither
  for the key nor for the decryption.
\<close>

theorem short_envelope_rejected:
  assumes "encrypted \<noteq> []" and "8 \<le> length password"
    and "atob encrypted = Some binaryString" and "length binaryString < 44"
  shows "decryptPayload wc encrypted password =
           (\<lparr>success = False, error = Some INVALID_ENCRYPTED_DATA, plaintext =
               []\<rparr>, [])"
proof -
  from assms(2) have "password \<noteq> []" by auto
  with assms show ?thesis
    by (simp add: decryptPayload_def codec_consts)
qed

lemma atob_4A: "atob (js ''AAAA'') = Some [0, 0, 0]"
  by (simp add: atob_def js_def isAsciiWhitespace_def stripPadding_def isBase64Char_def
        base64Value_def)

theorem short_envelope_rejected_witness:
  "js ''AAAA'' \<noteq> [] \<and> 8 \<le> length (js ''password1'') \<and>
   atob (js ''AAAA'') = Some [0, 0, 0] \<and> length [0, 0, 0 :: nat] < 44 \<and>
   decryptPayload toy_crypto (js ''AAAA'') (js ''password1'') =
     (\<lparr>success = False, error = Some INVALID_ENCRYPTED_DATA, plaintext = []\<rparr>, [])"
proof -
  have h: "js ''AAAA'' \<noteq> []" "8 \<le> length (js ''password1'')" "length [0, 0, 0 ::
      nat] < 44"
    by (simp_all add: js_def)
  from short_envelope_rejected[OF h(1,2) atob_4A h(3), of toy_crypto] h atob_4A show ?thesis
    by simp
qed

text \<open>
  Claim C7 as stated fails on the empty envelope: it is valid Base64 for zero bytes, and
  the failure is the one of a missing input.
\<close>

theorem empty_envelope_counterexample:
  "atob [] = Some [] \<and> 8 \<le> length (js ''password1'') \<and>
   decryptPayload toy_crypto [] (js ''password1'') =
     (\<lparr>success = False, error = Some ENTER_DATA_AND_PASSWORD, plaintext = []\<rparr>, [])"
  by (simp add: atob_def stripPadding_def decryptPayload_def js_def)

text \<open>
  Claim C8. Two runs of \<open>decryptPayload\<close>, each on a non-empty envelope of at least 44
  bytes with a password of at least 8 code units, in each of which the provider rejects
  the authentication tag, give the same result: the failure \<open>DECRYPTION_FAILED\<close>,
  whatever made the tag fail.
\<close>

theorem authentication_failure_uniform:
  assumes "e1 \<noteq> []" and "8 \<le> length p1" and "atob e1 = Some b1" and "44 \<le>
      length b1"
    and "deriveKey wc p1 (take 16 (map of_nat b1)) = Some k1"
    and "aes_gcm_decrypt wc k1 (take 12 (drop 16 (map of_nat b1))) (drop 28 (map of_nat b1)) =
        None"
    and "e2 \<noteq> []" and "8 \<le> length p2" and "atob e2 = Some b2" and "44 \<le> length b2"
    and "deriveKey wc p2 (take 16 (map of_nat b2)) = Some k2"
    and "aes_gcm_decrypt wc k2 (take 12 (drop 16 (map of_nat b2))) (drop 28 (map of_nat b2)) =
        None"
  shows "decryptPayload wc e1 p1 = decryptPayload wc e2 p2 \<and>
         fst (decryptPayload wc e1 p1) =
           \<lparr>success = False, error = Some DECRYPTION_FAILED, plaintext = []\<rparr>"
proof -
  have r: "decryptPayload wc e p =
      (\<lparr>success = False, error = Some DECRYPTION_FAILED, plaintext = []\<rparr>,
          [DeriveKey, Decrypt])"
    if "e \<noteq> []" "8 \<le> length p" "atob e = Some b" "44 \<le> length b"
      "deriveKey wc p (take 16 (map of_nat b)) = Some k"
      "aes_gcm_decrypt wc k (take 12 (drop 16 (map of_nat b))) (drop 28 (map of_nat b)) = None"
    for e p b k
  proof -
    from that(2) have "p \<noteq> []" by auto
    with that show ?thesis
      by (simp add: decryptPayload_def codec_consts)
  qed
  from r[OF assms(1-6)] r[OF assms(7-12)] show ?thesis by simp
qed

lemmas atob_eval = atob_def js_def isAsciiWhitespace_def stripPadding_def isBase64Char_def
  base64Value_def

lemma atob_sample: "atob sample_envelope = Some [0, 0, 0, 0, 0, 0, 0, 0, 0, 0, 0, 0, 0, 0, 0,
    0, 0, 0, 0, 0, 0, 0, 0, 0, 0, 0, 0, 0, 104, 105, 217, 217, 217, 217, 217, 217, 217, 217, 217,
    217, 217, 217, 217, 217, 217, 217]"
  by (simp add: sample_envelope_def atob_eval)

lemma atob_tampered: "atob tampered_envelope = Some [0, 0, 0, 0, 0, 0, 0, 0, 0, 0, 0, 0, 0, 0,
    0, 0, 0, 0, 0, 0, 0, 0, 0, 0, 0, 0, 0, 0, 105, 105, 217, 217, 217, 217, 217, 217, 217, 217,
    217, 217, 217, 217, 217, 217, 217, 217]"
  by (simp add: tampered_envelope_def atob_eval)

lemma utf8Bytes_ascii: "list_all (\<lambda>c. c < 128) s \<Longrightarrow> utf8Bytes s = s"
  by (induction s rule: StringToCodePoints.induct)
     (auto simp: utf8Bytes_def isLeadingSurrogate_def scalarValue_def utf8EncodeCodePoint_def)

lemma key_A: "deriveKey toy_crypto (js ''AAAAAAAA'') salt = Some ([65, 65, 65, 65, 65, 65, 65,
    65] @ salt)"
  by (simp add: deriveKey_def toy_crypto_def TextEncoder_encode_def utf8Bytes_ascii js_def)

lemma key_B: "deriveKey toy_crypto (js ''BBBBBBBB'') salt = Some ([66, 66, 66, 66, 66, 66, 66,
    66] @ salt)"
  by (simp add: deriveKey_def toy_crypto_def TextEncoder_encode_def utf8Bytes_ascii js_def)

lemma wrong_password_tag:
  "aes_gcm_decrypt toy_crypto ([66, 66, 66, 66, 66, 66, 66, 66] @ [0, 0, 0, 0, 0, 0, 0, 0, 0,
      0, 0, 0, 0, 0, 0, 0]) [0, 0, 0, 0, 0, 0, 0, 0, 0, 0, 0, 0]
     [104, 105, 217, 217, 217, 217, 217, 217, 217, 217, 217, 217, 217, 217, 217, 217, 217,
         217] = None"
  by (simp add: toy_crypto_def toy_tag_def)

lemma tampered_tag:
  "aes_gcm_decrypt toy_crypto ([65, 65, 65, 65, 65, 65, 65, 65] @ [0, 0, 0, 0, 0, 0, 0, 0, 0,
      0, 0, 0, 0, 0, 0, 0]) [0, 0, 0, 0, 0, 0, 0, 0, 0, 0, 0, 0]
     [105, 105, 217, 217, 217, 217, 217, 217, 217, 217, 217, 217, 217, 217, 217, 217, 217,
         217] = None"
  by (simp add: toy_crypto_def toy_tag_def)

lemma authentic_tag:
  "aes_gcm_decrypt toy_crypto ([65, 65, 65, 65, 65, 65, 65, 65] @ [0, 0, 0, 0, 0, 0, 0, 0, 0,
      0, 0, 0, 0, 0, 0, 0]) [0, 0, 0, 0, 0, 0, 0, 0, 0, 0, 0, 0]
     [104, 105, 217, 217, 217, 217, 217, 217, 217, 217, 217, 217, 217, 217, 217, 217, 217,
         217] = Some [104, 105]"
  by (simp add: toy_crypto_def toy_tag_def)


theorem authentication_failure_uniform_witness:
  "atob sample_envelope = Some [0, 0, 0, 0, 0, 0, 0, 0, 0, 0, 0, 0, 0, 0, 0, 0, 0, 0, 0, 0, 0,
      0, 0, 0, 0, 0, 0, 0, 104, 105, 217, 217, 217, 217, 217, 217, 217, 217, 217, 217, 217, 217,
      217, 217, 217, 217] \<and>
   atob tampered_envelope = Some [0, 0, 0, 0, 0, 0, 0, 0, 0, 0, 0, 0, 0, 0, 0, 0, 0, 0, 0, 0,
       0, 0, 0, 0, 0, 0, 0, 0, 105, 105, 217, 217, 217, 217, 217, 217, 217, 217, 217, 217, 217,
       217, 217, 217, 217, 217] \<and>
   decryptPayload toy_crypto sample_envelope (js ''BBBBBBBB'') =
     decryptPayload toy_crypto tampered_envelope (js ''AAAAAAAA'') \<and>
   fst (decryptPayload toy_crypto sample_envelope (js ''BBBBBBBB'')) =
     \<lparr>success = False, error = Some DECRYPTION_FAILED, plaintext = []\<rparr>"
proof -
  let ?b1 = "[0, 0, 0, 0, 0, 0, 0, 0, 0, 0, 0, 0, 0, 0, 0, 0, 0, 0, 0, 0, 0, 0, 0, 0, 0, 0, 0,
      0, 104, 105, 217, 217, 217, 217, 217, 217, 217, 217, 217, 217, 217, 217, 217, 217, 217, 217]
      :: nat list"
  let ?b2 = "[0, 0, 0, 0, 0, 0, 0, 0, 0, 0, 0, 0, 0, 0, 0, 0, 0, 0, 0, 0, 0, 0, 0, 0, 0, 0, 0,
      0, 105, 105, 217, 217, 217, 217, 217, 217, 217, 217, 217, 217, 217, 217, 217, 217, 217, 217]
      :: nat list"
  have n: "sample_envelope \<noteq> []" "tampered_envelope \<noteq> []"
    "8 \<le> length (js ''BBBBBBBB'')" "8 \<le> length (js ''AAAAAAAA'')"
    "44 \<le> length ?b1" "44 \<le> length ?b2"
    by (simp_all add: sample_envelope_def tampered_envelope_def js_def)
  have s1: "take 16 (map of_nat ?b1) = ([0, 0, 0, 0, 0, 0, 0, 0, 0, 0, 0, 0, 0, 0, 0, 0] :: 8
      word list)"
    "take 12 (drop 16 (map of_nat ?b1)) = ([0, 0, 0, 0, 0, 0, 0, 0, 0, 0, 0, 0] :: 8 word list)"
    "drop 28 (map of_nat ?b1) = ([104, 105, 217, 217, 217, 217, 217, 217, 217, 217, 217, 217,
        217, 217, 217, 217, 217, 217] :: 8 word list)"
    by simp_all
  have s2: "take 16 (map of_nat ?b2) = ([0, 0, 0, 0, 0, 0, 0, 0, 0, 0, 0, 0, 0, 0, 0, 0] :: 8
      word list)"
    "take 12 (drop 16 (map of_nat ?b2)) = ([0, 0, 0, 0, 0, 0, 0, 0, 0, 0, 0, 0] :: 8 word list)"
    "drop 28 (map of_nat ?b2) = ([105, 105, 217, 217, 217, 217, 217, 217, 217, 217, 217, 217,
        217, 217, 217, 217, 217, 217] :: 8 word list)"
    by simp_all
  have k1: "deriveKey toy_crypto (js ''BBBBBBBB'') (take 16 (map of_nat ?b1)) =
      Some ([66, 66, 66, 66, 66, 66, 66, 66] @ [0, 0, 0, 0, 0, 0, 0, 0, 0, 0, 0, 0, 0, 0, 0, 0])"
    by (simp only: s1 key_B)
  have k2: "deriveKey toy_crypto (js ''AAAAAAAA'') (take 16 (map of_nat ?b2)) =
      Some ([65, 65, 65, 65, 65, 65, 65, 65] @ [0, 0, 0, 0, 0, 0, 0, 0, 0, 0, 0, 0, 0, 0, 0, 0])"
    by (simp only: s2 key_A)
  have d1: "aes_gcm_decrypt toy_crypto ([66, 66, 66, 66, 66, 66, 66, 66] @ [0, 0, 0, 0, 0, 0,
      0, 0, 0, 0, 0, 0, 0, 0, 0, 0])
      (take 12 (drop 16 (map of_nat ?b1))) (drop 28 (map of_nat ?b1)) = None"
    by (simp only: s1 wrong_password_tag)
  have d2: "aes_gcm_decrypt toy_crypto ([65, 65, 65, 65, 65, 65, 65, 65] @ [0, 0, 0, 0, 0, 0,
      0, 0, 0, 0, 0, 0, 0, 0, 0, 0])
      (take 12 (drop 16 (map of_nat ?b2))) (drop 28 (map of_nat ?b2)) = None"
    by (simp only: s2 tampered_tag)
  note r = authentication_failure_uniform[OF n(1) n(3) atob_sample n(5) k1 d1
      n(2) n(4) atob_tampered n(6) k2 d2]
  from r atob_sample atob_tampered show ?thesis
    by (intro conjI) (rule atob_sample, rule atob_tampered, rule conjunct1, assumption,
        rule conjunct2, assumption)
qed

subsection \<open>Every call gives a result\<close>

text \<open>
  Claim C10. For every provider, also one that rejects, every argument limit and all
  input strings, the promise of \<open>encryptPayload\<close> and the promise of \<open>decryptPayload\<close>
  complete normally, never with an exception: every exception thrown in the \<open>try\<close> block
  is caught by its handler. The value is the result of the direct form, and a result
  without success carries an error message.
\<close>

theorem codec_total:
  "encryptPayload_async wc maxArguments random p w =
     Normal (encryptPayload wc maxArguments random p w) \<and>
   (\<not> success (encryptPayload wc maxArguments random p w) \<longrightarrow>
      (\<exists>m. error (encryptPayload wc maxArguments random p w) = Some m)) \<and>
   decryptPayload_async wc e w = Normal (fst (decryptPayload wc e w)) \<and>
   (\<not> success (fst (decryptPayload wc e w)) \<longrightarrow>
      (\<exists>m. error (fst (decryptPayload wc e w)) = Some m))"
proof (intro conjI)
  show "encryptPayload_async wc maxArguments random p w =
     Normal (encryptPayload wc maxArguments random p w)"
    by (simp add: encryptPayload_async_def encryptPayload_try_def encryptPayload_def Let_def
          try_catch_def and_then_def or_throw_def split: option.splits prod.splits)
  show "\<not> success (encryptPayload wc maxArguments random p w) \<longrightarrow>
      (\<exists>m. error (encryptPayload wc maxArguments random p w) = Some m)"
    by (auto simp: encryptPayload_def validateEncryptionInput_def Let_def
          split: option.splits prod.splits)
  show "decryptPayload_async wc e w = Normal (fst (decryptPayload wc e w))"
    by (simp add: decryptPayload_async_def decryptPayload_try_def decryptPayload_def Let_def
          try_catch_def and_then_def or_throw_def split: option.splits)
  show "\<not> success (fst (decryptPayload wc e w)) \<longrightarrow>
      (\<exists>m. error (fst (decryptPayload wc e w)) = Some m)"
    by (auto simp: decryptPayload_def Let_def split: option.splits)
qed

text \<open>
  The handlers are needed: the \<open>try\<close> block of \<open>encryptPayload\<close> throws a \<open>RangeError\<close>
  when the envelope exceeds the argument limit, and the \<open>try\<close> block of
  \<open>decryptPayload\<close> throws the rejection of the provider on the tampered envelope.
\<close>

lemma encrypt_try_throws:
  "encryptPayload_try toy_crypto tiny_limit zero_random (js ''hi'') (js ''password1'') =
     Throw RangeError"
  by (simp add: encryptPayload_try_def validateEncryptionInput_def trim_def js_def
        isWhiteSpace_def codec_consts generateRandomBytes_def deriveKey_def toy_crypto_def
        and_then_def or_throw_def fromCharCodeSpread_def tiny_limit_def toy_tag_def Let_def)

lemma decrypt_try_rejection:
  assumes "e \<noteq> []" and "8 \<le> length w" and "atob e = Some b" and "44 \<le> length b"
    and "deriveKey wc w (take 16 (map of_nat b)) = Some k"
    and "aes_gcm_decrypt wc k (take 12 (drop 16 (map of_nat b))) (drop 28 (map of_nat b)) = None"
  shows "decryptPayload_try wc e w = Throw ProviderRejection"
proof -
  from assms(2) have "w \<noteq> []"
    by auto
  with assms show ?thesis
    by (simp add: decryptPayload_try_def codec_consts try_catch_def and_then_def or_throw_def
          Let_def)
qed

lemma decrypt_try_throws:
  "decryptPayload_try toy_crypto tampered_envelope (js ''AAAAAAAA'') = Throw ProviderRejection"
proof -
  let ?b2 = "[0, 0, 0, 0, 0, 0, 0, 0, 0, 0, 0, 0, 0, 0, 0, 0, 0, 0, 0, 0, 0, 0, 0, 0, 0, 0, 0,
      0, 105, 105, 217, 217, 217, 217, 217, 217, 217, 217, 217, 217, 217, 217, 217, 217, 217, 217]
      :: nat list"
  have n: "tampered_envelope \<noteq> []" "8 \<le> length (js ''AAAAAAAA'')" "44 \<le> length ?b2"
    by (simp_all add: tampered_envelope_def js_def)
  have s2: "take 16 (map of_nat ?b2) = ([0, 0, 0, 0, 0, 0, 0, 0, 0, 0, 0, 0, 0, 0, 0, 0] :: 8
      word list)"
    "take 12 (drop 16 (map of_nat ?b2)) = ([0, 0, 0, 0, 0, 0, 0, 0, 0, 0, 0, 0] :: 8 word list)"
    "drop 28 (map of_nat ?b2) = ([105, 105, 217, 217, 217, 217, 217, 217, 217, 217, 217, 217,
        217, 217, 217, 217, 217, 217] :: 8 word list)"
    by simp_all
  have k2: "deriveKey toy_crypto (js ''AAAAAAAA'') (take 16 (map of_nat ?b2)) =
      Some ([65, 65, 65, 65, 65, 65, 65, 65] @ [0, 0, 0, 0, 0, 0, 0, 0, 0, 0, 0, 0, 0, 0, 0, 0])"
    by (simp only: s2 key_A)
  have d2: "aes_gcm_decrypt toy_crypto ([65, 65, 65, 65, 65, 65, 65, 65] @ [0, 0, 0, 0, 0, 0,
      0, 0, 0, 0, 0, 0, 0, 0, 0, 0])
      (take 12 (drop 16 (map of_nat ?b2))) (drop 28 (map of_nat ?b2)) = None"
    by (simp only: s2 tampered_tag)
  show ?thesis
    by (rule decrypt_try_rejection[OF n(1) n(2) atob_tampered n(3) k2 d2])
qed

theorem codec_total_witness:
  "encryptPayload_try toy_crypto tiny_limit zero_random (js ''hi'') (js ''password1'') =
     Throw RangeError \<and>
   encryptPayload_async toy_crypto tiny_limit zero_random (js ''hi'') (js ''password1'') =
     Normal (encryptPayload toy_crypto tiny_limit zero_random (js ''hi'') (js ''password1'')) \<and>
   error (encryptPayload toy_crypto tiny_limit zero_random (js ''hi'') (js ''password1'')) =
     Some ENCRYPTION_FAILED \<and>
   decryptPayload_try toy_crypto tampered_envelope (js ''AAAAAAAA'') =
     Throw ProviderRejection \<and>
   decryptPayload_async toy_crypto tampered_envelope (js ''AAAAAAAA'') =
     Normal (fst (decryptPayload toy_crypto tampered_envelope (js ''AAAAAAAA''))) \<and>
   error (fst (decryptPayload toy_crypto tampered_envelope (js ''AAAAAAAA''))) =
     Some DECRYPTION_FAILED"
proof -
  note t = codec_total[of toy_crypto tiny_limit zero_random "js ''hi''" "js ''password1''"
      tampered_envelope]
  note u = codec_total[of toy_crypto tiny_limit zero_random "js ''hi''" "js ''AAAAAAAA''"
      tampered_envelope]
  have a: "encryptPayload_async toy_crypto tiny_limit zero_random (js ''hi'') (js ''password1'') =
      Normal \<lparr>success = False, error = Some ENCRYPTION_FAILED, encryptedData = []\<rparr>"
    by (simp add: encryptPayload_async_def encrypt_try_throws try_catch_def)
  have b: "decryptPayload_async toy_crypto tampered_envelope (js ''AAAAAAAA'') =
      Normal \<lparr>success = False, error = Some DECRYPTION_FAILED, plaintext = []\<rparr>"
    by (simp add: decryptPayload_async_def decrypt_try_throws try_catch_def)
  from t a have "encryptPayload toy_crypto tiny_limit zero_random (js ''hi'') (js ''password1'') =
      \<lparr>success = False, error = Some ENCRYPTION_FAILED, encryptedData = []\<rparr>"
    by simp
  moreover from u b
  have "fst (decryptPayload toy_crypto tampered_envelope (js ''AAAAAAAA'')) =
      \<lparr>success = False, error = Some DECRYPTION_FAILED, plaintext = []\<rparr>"
    by simp
  ultimately show ?thesis
    using a b encrypt_try_throws decrypt_try_throws by simp
qed

end
